theory Spec2Isabelle
  imports
    Main
    "HOL-Library.Word"
    "HOL-Library.Char_ord"
    "HOL-Library.List_Lexorder"
    "HOL-Library.Multiset"
begin

section \<open>The build-specification reader of apngasm (specreaderimpl.cpp)\<close>

text \<open>
  The development embeds \<^verbatim>\<open>src/specreader/specreaderimpl.cpp\<close>: the delay parser
  (\<^verbatim>\<open>s2u\<close>, \<^verbatim>\<open>str2delay\<close>), the path resolver (\<^verbatim>\<open>getFiles\<close>) and the
  constructors \<^verbatim>\<open>JsonSpecReader\<close>, \<^verbatim>\<open>XmlSpecReader\<close> and \<^verbatim>\<open>SpecReader\<close>.
  Exceptions are values of the type \<open>error\<close>; a function that can throw returns
  \<open>error + 'a\<close>. The process state the code reads and writes (the current working
  directory and the file system) is an explicit record that is passed in and returned.
\<close>

subsection \<open>Data model\<close>

text \<open>The exceptions that can leave the functions of the file, by their C++ names.\<close>

datatype error =
    out_of_range
  | json_parser_error
  | ptree_bad_path string
  | filesystem_error
  | regex_error

text \<open>\<^verbatim>\<open>struct Delay { unsigned int num, den; }\<close> and \<^verbatim>\<open>struct FrameInfo\<close> (apngframe.h,
  specreader.h).\<close>

record Delay =
  num :: "32 word"
  den :: "32 word"

record FrameInfo =
  filePath :: string
  delay :: Delay

text \<open>
  \<^verbatim>\<open>boost::property_tree::ptree\<close>: a node carries a data string and an ordered list of
  (key, subtree) children. The JSON reader stores a scalar in \<open>data\<close> of a childless
  node, an object as children keyed by member name and an array as children with
  empty keys.
\<close>

datatype ptree = Ptree (data: string) (children: "(string \<times> ptree) list")

text \<open>
  What the file takes from outside itself. The two constants are declared in
  apngframe.h, which is not part of the sources at hand. The translators are those
  \<^verbatim>\<open>get_optional<unsigned int>\<close> and \<^verbatim>\<open>get_optional<bool>\<close> apply to a node's data
  (\<open>None\<close>: the data does not convert). \<open>regex_compile\<close> stands for the constructor
  of \<^verbatim>\<open>boost::regex\<close> followed by \<^verbatim>\<open>boost::regex_match\<close>: \<open>None\<close> when the
  constructor throws, otherwise the predicate "the whole string matches".
\<close>

record platform =
  DEFAULT_FRAME_NUMERATOR :: "32 word"
  DEFAULT_FRAME_DENOMINATOR :: "32 word"
  translate_uint :: "string \<Rightarrow> 32 word option"
  translate_bool :: "string \<Rightarrow> bool option"
  regex_compile :: "string \<Rightarrow> (string \<Rightarrow> bool) option"

subsection \<open>The delay parser\<close>

text \<open>
  \<^verbatim>\<open>boost::lexical_cast<unsigned int>\<close> on a string: an optional sign, then one or more
  decimal digits and nothing else; the value must fit 32 bits; a leading minus negates
  the value modulo \<open>2 ^ 32\<close>. \<open>None\<close> stands for \<^verbatim>\<open>bad_lexical_cast\<close>.
\<close>

definition is_digit :: "char \<Rightarrow> bool" where
  "is_digit c = (CHR ''0'' \<le> c \<and> c \<le> CHR ''9'')"

fun decimal_value :: "nat \<Rightarrow> string \<Rightarrow> nat" where
  "decimal_value acc [] = acc"
| "decimal_value acc (c # cs) = decimal_value (10 * acc + (of_char c - 48)) cs"

definition lexical_cast_uint :: "string \<Rightarrow> 32 word option" where
  "lexical_cast_uint str =
     (case str of
        [] \<Rightarrow> None
      | c # cs \<Rightarrow>
          let has_minus = (c = CHR ''-'');
              digits = (if has_minus \<or> c = CHR ''+'' then cs else str)
          in if digits = [] \<or> \<not> list_all is_digit digits then None
             else let v = decimal_value 0 digits
                  in if 4294967295 < v then None
                     else Some (if has_minus then 0 - of_nat v else of_nat v))"

text \<open>\<^verbatim>\<open>s2u\<close>: the conversion, with the default where the cast throws.\<close>

definition s2u :: "string \<Rightarrow> 32 word \<Rightarrow> 32 word" where
  "s2u str defaultValue =
     (case lexical_cast_uint str of Some v \<Rightarrow> v | None \<Rightarrow> defaultValue)"

text \<open>\<^verbatim>\<open>std::string::find(c, 0)\<close> (\<open>None\<close> is \<^verbatim>\<open>npos\<close>) and \<^verbatim>\<open>std::string::substr\<close>,
  which throws when the start lies beyond the end of the string.\<close>

fun find_char :: "string \<Rightarrow> char \<Rightarrow> nat option" where
  "find_char [] c = None"
| "find_char (x # xs) c = (if x = c then Some 0 else map_option Suc (find_char xs c))"

definition substr :: "string \<Rightarrow> nat \<Rightarrow> nat \<Rightarrow> error + string" where
  "substr s pos n = (if length s < pos then Inl out_of_range else Inr (take n (drop pos s)))"

definition str2delay :: "platform \<Rightarrow> string \<Rightarrow> error + Delay" where
  "str2delay P str =
     (case find_char str (CHR ''/'') of
        None \<Rightarrow>
          Inr \<lparr>num = s2u str (DEFAULT_FRAME_NUMERATOR P), den = DEFAULT_FRAME_DENOMINATOR P\<rparr>
      | Some index \<Rightarrow>
          (case substr str 0 index of
             Inl e \<Rightarrow> Inl e
           | Inr n \<Rightarrow>
               (case substr str (index + 1) (length str) of
                  Inl e \<Rightarrow> Inl e
                | Inr d \<Rightarrow>
                    Inr \<lparr>num = s2u n (DEFAULT_FRAME_NUMERATOR P),
                         den = s2u d (DEFAULT_FRAME_DENOMINATOR P)\<rparr>)))"

subsection \<open>Paths and the file system\<close>

text \<open>
  The process state the reader touches. \<open>cwd\<close> is the current working directory.
  \<open>stat\<close> is what the operating system answers for a path string: nothing, a regular
  file, a directory with its entries in the order \<^verbatim>\<open>directory_iterator\<close> enumerates
  them (the name, and whether \<^verbatim>\<open>is_regular_file\<close> holds of the entry's status), or a
  file of another kind. \<open>realpath\<close> is the canonical absolute path of a directory
  given by an absolute path string, with dot and dot-dot components, repeated
  separators and symbolic links resolved: what \<^verbatim>\<open>getcwd\<close> reports once the process
  has changed into it. \<open>read_json\<close> is the JSON decoder applied to the file at a
  path (\<open>None\<close>: \<^verbatim>\<open>read_json\<close> throws). The file system is not changed by anyone
  else while a reader runs.
\<close>

datatype fnode =
    RegularFile
  | Directory "(string \<times> bool) list"
  | OtherFile

record fsys =
  cwd :: string
  stat :: "string \<Rightarrow> fnode option"
  realpath :: "string \<Rightarrow> string"
  read_json :: "string \<Rightarrow> ptree option"

text \<open>
  \<^verbatim>\<open>boost::filesystem::path\<close> on POSIX, for paths without a network root name
  (\<^verbatim>\<open>//host\<close>): \<^verbatim>\<open>operator/\<close>, \<^verbatim>\<open>absolute\<close> and \<^verbatim>\<open>parent_path\<close>. None of them
  normalises a path, and none looks at the file system.
\<close>

definition is_absolute :: "string \<Rightarrow> bool" where
  "is_absolute p = (case p of [] \<Rightarrow> False | c # _ \<Rightarrow> c = CHR ''/'')"

definition path_append :: "string \<Rightarrow> string \<Rightarrow> string" where
  "path_append a b =
     (if b = [] then a
      else if a \<noteq> [] \<and> last a \<noteq> CHR ''/'' \<and> \<not> is_absolute b then a @ ''/'' @ b
      else a @ b)"

definition absolute :: "fsys \<Rightarrow> string \<Rightarrow> string" where
  "absolute fs p =
     (if p = [] then cwd fs else if is_absolute p then p else path_append (cwd fs) p)"

definition strip_separators :: "string \<Rightarrow> string" where
  "strip_separators s = rev (dropWhile (\<lambda>c. c = CHR ''/'') (rev s))"

definition parent_path :: "string \<Rightarrow> string" where
  "parent_path p =
     (if p = [] then []
      else if last p = CHR ''/'' then
        (let s = strip_separators (butlast p)
         in if s = [] \<and> butlast p \<noteq> [] then ''/'' else s)
      else if CHR ''/'' \<notin> set p then []
      else
        (let s = strip_separators (rev (dropWhile (\<lambda>c. c \<noteq> CHR ''/'') (rev p)))
         in if s = [] then ''/'' else s))"

definition exists_path :: "fsys \<Rightarrow> string \<Rightarrow> bool" where
  "exists_path fs p = (stat fs p \<noteq> None)"

text \<open>The entries a \<^verbatim>\<open>directory_iterator\<close> over \<open>dir\<close> yields, each with its full path;
  the constructor throws unless \<open>dir\<close> is a directory.\<close>

definition directory_iterator :: "fsys \<Rightarrow> string \<Rightarrow> error + (string \<times> bool) list" where
  "directory_iterator fs dir =
     (case stat fs dir of
        Some (Directory entries) \<Rightarrow>
          Inr (map (\<lambda>entry. (path_append dir (fst entry), snd entry)) entries)
      | _ \<Rightarrow> Inl filesystem_error)"

text \<open>\<^verbatim>\<open>current_path(p)\<close> is \<^verbatim>\<open>chdir\<close>: it throws on the empty path and on anything that
  is not a directory. What \<^verbatim>\<open>current_path()\<close> and \<^verbatim>\<open>absolute\<close> read afterwards is
  \<^verbatim>\<open>getcwd\<close>, the canonical path of the directory, not the string that was passed.\<close>

definition set_current_path :: "fsys \<Rightarrow> string \<Rightarrow> error + fsys" where
  "set_current_path fs p =
     (if p = [] then Inl filesystem_error
      else (case stat fs (absolute fs p) of
              Some (Directory entries) \<Rightarrow> Inr (fs\<lparr>cwd := realpath fs (absolute fs p)\<rparr>)
            | _ \<Rightarrow> Inl filesystem_error))"

text \<open>\<^verbatim>\<open>boost::algorithm::iends_with\<close> in the classic locale: the suffix test on the
  upper-cased strings, where only the ASCII letters have an upper case.\<close>

definition to_upper :: "char \<Rightarrow> char" where
  "to_upper c =
     (case map_of (zip ''abcdefghijklmnopqrstuvwxyz'' ''ABCDEFGHIJKLMNOPQRSTUVWXYZ'') c of
        Some u \<Rightarrow> u
      | None \<Rightarrow> c)"

definition iends_with :: "string \<Rightarrow> string \<Rightarrow> bool" where
  "iends_with s t =
     (length t \<le> length s \<and>
      map to_upper (drop (length s - length t) s) = map to_upper t)"

subsection \<open>The path resolver\<close>

text \<open>
  The two \<^verbatim>\<open>regex_replace\<close> calls of \<^verbatim>\<open>getFiles\<close>. The regex \<^verbatim>\<open>escape\<close> is the
  character class \<^verbatim>\<open>[\^\.\$\|\(\)\[\]\+\?\\]\<close> and its format string puts a backslash
  before the matched character; the regex \<^verbatim>\<open>wildcard\<close> is a literal star and its
  format string is \<^verbatim>\<open>.+\<close>. Every match is replaced and the rest is copied.
\<close>

definition escape :: "char list" where
  "escape = [CHR ''^'', CHR ''.'', CHR ''$'', CHR ''|'', CHR ''('', CHR '')'',
             CHR ''['', CHR '']'', CHR ''+'', CHR ''?'', CHR 0x5C]"

definition replace_escape :: "string \<Rightarrow> string" where
  "replace_escape s = concat (map (\<lambda>c. if c \<in> set escape then [CHR 0x5C, c] else [c]) s)"

definition replace_wildcard :: "string \<Rightarrow> string" where
  "replace_wildcard s = concat (map (\<lambda>c. if c = CHR ''*'' then ''.+'' else [c]) s)"

text \<open>The loop over the directory entries ("Search files"), \<open>files\<close> being the vector
  the matches are pushed to.\<close>

fun search_files :: "(string \<Rightarrow> bool) \<Rightarrow> (string \<times> bool) list \<Rightarrow> string list \<Rightarrow> string list" where
  "search_files filter_rx [] files = files"
| "search_files filter_rx ((curFilePath, regular) # rest) files =
     (if \<not> regular then search_files filter_rx rest files
      else if \<not> filter_rx curFilePath then search_files filter_rx rest files
      else if iends_with curFilePath ''.png''
        then search_files filter_rx rest (files @ [curFilePath])
      else search_files filter_rx rest files)"

definition getFiles :: "platform \<Rightarrow> fsys \<Rightarrow> string \<Rightarrow> error + string list" where
  "getFiles P fs filepath =
     (let absPath = absolute fs filepath
      in if CHR ''*'' \<notin> set absPath then
           (if iends_with absPath ''.png'' then Inr [absPath] else Inr [absPath @ ''.png''])
         else
           (let absPath = replace_wildcard (replace_escape absPath)
            in if \<not> exists_path fs (parent_path absPath) then Inr []
               else (case regex_compile P absPath of
                       None \<Rightarrow> Inl regex_error
                     | Some filter_rx \<Rightarrow>
                         (case directory_iterator fs (parent_path absPath) of
                            Inl e \<Rightarrow> Inl e
                          | Inr entries \<Rightarrow> Inr (sort (search_files filter_rx entries []))))))"

subsection \<open>The readers\<close>

text \<open>\<^verbatim>\<open>ptree::get_child_optional\<close> and \<^verbatim>\<open>ptree::get_child\<close> for a one-segment path:
  the first child with the key; \<^verbatim>\<open>get_child\<close> throws when there is none.\<close>

definition get_child_optional :: "ptree \<Rightarrow> string \<Rightarrow> ptree option" where
  "get_child_optional t key = map_of (children t) key"

definition get_child :: "ptree \<Rightarrow> string \<Rightarrow> error + ptree" where
  "get_child t key =
     (case get_child_optional t key of None \<Rightarrow> Inl (ptree_bad_path key) | Some c \<Rightarrow> Inr c)"

text \<open>The fields of \<^verbatim>\<open>AbstractSpecReader\<close> and its constructor.\<close>

record reader =
  name :: string
  loops :: "32 word"
  skipFirst :: bool
  frameInfos :: "FrameInfo list"

definition AbstractSpecReader :: reader where
  "AbstractSpecReader = \<lparr>name = [], loops = 0, skipFirst = False, frameInfos = []\<rparr>"

text \<open>The loop that fills \<^verbatim>\<open>delays\<close> from the children of the \<^verbatim>\<open>delays\<close> node.\<close>

fun delays_loop :: "platform \<Rightarrow> (string \<times> ptree) list \<Rightarrow> Delay list \<Rightarrow> error + Delay list" where
  "delays_loop P [] delays = Inr delays"
| "delays_loop P (child # rest) delays =
     (case str2delay P (data (snd child)) of
        Inl e \<Rightarrow> Inl e
      | Inr d \<Rightarrow> delays_loop P rest (delays @ [d]))"

text \<open>
  The body of the loop over the children of \<^verbatim>\<open>frames\<close>. \<open>frame_file_delay\<close> is the
  if/else that sets \<^verbatim>\<open>file\<close> and \<^verbatim>\<open>delay\<close>; \<open>add_frames\<close> is the inner loop that
  pushes one \<^verbatim>\<open>FrameInfo\<close> per file; \<open>frame_body\<close> is the whole body, ending with
  \<^verbatim>\<open>++delayIndex\<close>. The counter \<^verbatim>\<open>delayIndex\<close> is a C++ \<^verbatim>\<open>int\<close> that is compared with
  \<^verbatim>\<open>delays.size()\<close>; it is a natural number here, which is what the code computes
  for a document of fewer than \<open>2 ^ 31\<close> frame declarations.
\<close>

definition frame_file_delay ::
  "platform \<Rightarrow> Delay list \<Rightarrow> Delay \<Rightarrow> nat \<Rightarrow> ptree \<Rightarrow> error + (string \<times> Delay)" where
  "frame_file_delay P delays defaultDelay delayIndex frame =
     (case children frame of
        [] \<Rightarrow>
          Inr (data frame,
               if delayIndex < length delays then delays ! delayIndex else defaultDelay)
      | val # _ \<Rightarrow>
          (case str2delay P (data (snd val)) of
             Inl e \<Rightarrow> Inl e
           | Inr d \<Rightarrow> Inr (fst val, d)))"

fun add_frames :: "string list \<Rightarrow> Delay \<Rightarrow> FrameInfo list \<Rightarrow> FrameInfo list" where
  "add_frames [] d infos = infos"
| "add_frames (f # files) d infos = add_frames files d (infos @ [\<lparr>filePath = f, delay = d\<rparr>])"

definition frame_body ::
  "platform \<Rightarrow> fsys \<Rightarrow> Delay list \<Rightarrow> Delay \<Rightarrow> ptree \<Rightarrow> nat \<times> FrameInfo list
     \<Rightarrow> error + (nat \<times> FrameInfo list)" where
  "frame_body P fs delays defaultDelay frame st =
     (case frame_file_delay P delays defaultDelay (fst st) frame of
        Inl e \<Rightarrow> Inl e
      | Inr fd \<Rightarrow>
          (case getFiles P fs (fst fd) of
             Inl e \<Rightarrow> Inl e
           | Inr files \<Rightarrow> Inr (fst st + 1, add_frames files (snd fd) (snd st))))"

fun frames_loop ::
  "platform \<Rightarrow> fsys \<Rightarrow> Delay list \<Rightarrow> Delay \<Rightarrow> (string \<times> ptree) list \<Rightarrow> nat \<times> FrameInfo list
     \<Rightarrow> error + (nat \<times> FrameInfo list)" where
  "frames_loop P fs delays defaultDelay [] st = Inr st"
| "frames_loop P fs delays defaultDelay (child # rest) st =
     (case frame_body P fs delays defaultDelay (snd child) st of
        Inl e \<Rightarrow> Inl e
      | Inr st' \<Rightarrow> frames_loop P fs delays defaultDelay rest st')"

text \<open>
  The scalar fields: \<^verbatim>\<open>get_optional<T>(key)\<close> is the translated data of the child, if
  there is a child and its data translates. For \<^verbatim>\<open>std::string\<close> the translator is the
  identity.
\<close>

definition read_scalars :: "platform \<Rightarrow> ptree \<Rightarrow> reader \<Rightarrow> reader" where
  "read_scalars P root this =
     (let this = (case get_child_optional root ''name'' of
                    Some c \<Rightarrow> this\<lparr>name := data c\<rparr> | None \<Rightarrow> this);
          this = (case Option.bind (get_child_optional root ''loops'') (\<lambda>c. translate_uint P (data c)) of
                    Some l \<Rightarrow> this\<lparr>loops := l\<rparr> | None \<Rightarrow> this);
          this = (case Option.bind (get_child_optional root ''skip_first'') (\<lambda>c. translate_bool P (data c)) of
                    Some b \<Rightarrow> this\<lparr>skipFirst := b\<rparr> | None \<Rightarrow> this)
      in this)"

definition read_default_delay :: "platform \<Rightarrow> ptree \<Rightarrow> error + Delay" where
  "read_default_delay P root =
     (case get_child_optional root ''default_delay'' of
        None \<Rightarrow> Inr \<lparr>num = DEFAULT_FRAME_NUMERATOR P, den = DEFAULT_FRAME_DENOMINATOR P\<rparr>
      | Some c \<Rightarrow> str2delay P (data c))"

text \<open>
  The part of the constructor that runs between the two \<^verbatim>\<open>current_path\<close> calls, in
  the directory of the specification file.
\<close>

definition read_document :: "platform \<Rightarrow> fsys \<Rightarrow> ptree \<Rightarrow> error + reader" where
  "read_document P fs root =
     (let this = read_scalars P root AbstractSpecReader
      in case read_default_delay P root of
           Inl e \<Rightarrow> Inl e
         | Inr defaultDelay \<Rightarrow>
             (case get_child root ''delays'' of
                Inl e \<Rightarrow> Inl e
              | Inr delays_node \<Rightarrow>
                  (case delays_loop P (children delays_node) [] of
                     Inl e \<Rightarrow> Inl e
                   | Inr delays \<Rightarrow>
                       (case get_child root ''frames'' of
                          Inl e \<Rightarrow> Inl e
                        | Inr frames_node \<Rightarrow>
                            (case frames_loop P fs delays defaultDelay (children frames_node) (0, []) of
                               Inl e \<Rightarrow> Inl e
                             | Inr st \<Rightarrow> Inr (this\<lparr>frameInfos := snd st\<rparr>))))))"

text \<open>
  \<^verbatim>\<open>JsonSpecReader::JsonSpecReader\<close>. The result pairs what the caller gets (the object,
  or the exception that left the constructor) with the process state afterwards. An
  exception leaves from where it is thrown: nothing in the constructor catches it.
\<close>

definition JsonSpecReader :: "platform \<Rightarrow> fsys \<Rightarrow> string \<Rightarrow> (error + reader) \<times> fsys" where
  "JsonSpecReader P fs specPath =
     (case read_json fs specPath of
        None \<Rightarrow> (Inl json_parser_error, fs)
      | Some root \<Rightarrow>
          (let oldPath = cwd fs
           in case set_current_path fs (parent_path specPath) of
                Inl e \<Rightarrow> (Inl e, fs)
              | Inr fs1 \<Rightarrow>
                  (case read_document P fs1 root of
                     Inl e \<Rightarrow> (Inl e, fs1)
                   | Inr this \<Rightarrow>
                       (case set_current_path fs1 oldPath of
                          Inl e \<Rightarrow> (Inl e, fs1)
                        | Inr fs2 \<Rightarrow> (Inr this, fs2)))))"

text \<open>\<^verbatim>\<open>XmlSpecReader::XmlSpecReader\<close> has an empty body.\<close>

definition XmlSpecReader :: "platform \<Rightarrow> fsys \<Rightarrow> string \<Rightarrow> (error + reader) \<times> fsys" where
  "XmlSpecReader P fs specPath = (Inr AbstractSpecReader, fs)"

definition SpecReader :: "platform \<Rightarrow> fsys \<Rightarrow> string \<Rightarrow> (error + reader) \<times> fsys" where
  "SpecReader P fs specPath =
     (if iends_with specPath ''.json'' then JsonSpecReader P fs specPath
      else XmlSpecReader P fs specPath)"

subsection \<open>The regular expressions \<^verbatim>\<open>getFiles\<close> builds\<close>

text \<open>
  A model of Boost.Regex (Perl syntax, the default of \<^verbatim>\<open>boost::regex\<close>) for the patterns
  \<^verbatim>\<open>getFiles\<close> can build: ordinary characters, a backslash before a character that is
  not a letter, a digit or an underscore (the character itself), the dot, the postfix
  plus and the bounded repeats \<^verbatim>\<open>{n}\<close>, \<^verbatim>\<open>{n,}\<close> and \<^verbatim>\<open>{n,m}\<close>. The special
  characters of that syntax are \<^verbatim>\<open>.[{}()\*+?|^$\<close>. An opening brace that does not start
  a bounded repeat, and a closing brace on its own, are literals; a repeat with nothing
  to repeat, after another repeat or with \<open>m < n\<close> is an error. A pattern with any
  other special construct is outside the model (\<open>None\<close>). \<^verbatim>\<open>regex_match\<close> succeeds
  when the whole string matches.
\<close>

datatype atom = Lit char | AnyChar

datatype item = Item atom nat "nat option"

definition regex_special :: "char list" where
  "regex_special = ''.[{}()'' @ [CHR 0x5C] @ ''*+?|^$''"

definition word_chars :: "char list" where
  "word_chars = ''abcdefghijklmnopqrstuvwxyzABCDEFGHIJKLMNOPQRSTUVWXYZ0123456789_''"

text \<open>What follows an opening brace: the bounds and the number of characters read,
  or \<open>None\<close> when no bounded repeat stands there.\<close>

definition parse_bound :: "string \<Rightarrow> (nat \<times> nat option \<times> nat) option" where
  "parse_bound s =
     (let ds = takeWhile is_digit s; r = dropWhile is_digit s
      in if ds = [] then None
         else (case r of
                 [] \<Rightarrow> None
               | c # r' \<Rightarrow>
                   if c = CHR ''}'' then
                     Some (decimal_value 0 ds, Some (decimal_value 0 ds), length ds + 1)
                   else if c = CHR '','' then
                     (let es = takeWhile is_digit r'; r'' = dropWhile is_digit r'
                      in (case r'' of
                            [] \<Rightarrow> None
                          | c' # _ \<Rightarrow>
                              if c' = CHR ''}'' then
                                Some (decimal_value 0 ds,
                                      if es = [] then None else Some (decimal_value 0 es),
                                      length ds + length es + 2)
                              else None))
                   else None))"

fun quantify :: "nat \<Rightarrow> nat option \<Rightarrow> bool \<Rightarrow> item list \<Rightarrow> item list option" where
  "quantify lo hi quantified [] = None"
| "quantify lo hi quantified (Item a _ _ # acc) =
     (if quantified then None
      else (case hi of
              Some h \<Rightarrow> if h < lo then None else Some (Item a lo hi # acc)
            | None \<Rightarrow> Some (Item a lo hi # acc)))"

text \<open>The parser reads the pattern from left to right: \<open>skip\<close> characters are still to
  be passed over (the rest of a bounded repeat), \<open>esc\<close> says that a backslash came
  last, \<open>quantified\<close> that the last item already has a repeat, and \<open>acc\<close> holds the
  items read so far, the last one first.\<close>

fun parse_items :: "string \<Rightarrow> nat \<Rightarrow> bool \<Rightarrow> bool \<Rightarrow> item list \<Rightarrow> item list option" where
  "parse_items [] skip esc quantified acc = (if esc then None else Some (rev acc))"
| "parse_items (c # cs) skip esc quantified acc =
     (if 0 < skip then parse_items cs (skip - 1) esc quantified acc
      else if esc then
        (if c \<in> set word_chars then None
         else parse_items cs 0 False False (Item (Lit c) 1 (Some 1) # acc))
      else if c = CHR 0x5C then parse_items cs 0 True quantified acc
      else if c = CHR ''.'' then parse_items cs 0 False False (Item AnyChar 1 (Some 1) # acc)
      else if c = CHR ''+'' then
        (case quantify 1 None quantified acc of
           None \<Rightarrow> None
         | Some acc' \<Rightarrow> parse_items cs 0 False True acc')
      else if c = CHR ''{'' then
        (case parse_bound cs of
           None \<Rightarrow> parse_items cs 0 False False (Item (Lit c) 1 (Some 1) # acc)
         | Some (lo, hi, k) \<Rightarrow>
             (case quantify lo hi quantified acc of
                None \<Rightarrow> None
              | Some acc' \<Rightarrow> parse_items cs k False True acc'))
      else if c \<in> set ''[()*?|^$'' then None
      else parse_items cs 0 False False (Item (Lit c) 1 (Some 1) # acc))"

fun atom_matches :: "atom \<Rightarrow> char \<Rightarrow> bool" where
  "atom_matches (Lit c) x = (x = c)"
| "atom_matches AnyChar x = True"

text \<open>\<open>match_repeat a lo hi cont s\<close>: some prefix of \<open>s\<close> of at least \<open>lo\<close> and at most
  \<open>hi\<close> characters, all matched by \<open>a\<close>, is followed by a rest that \<open>cont\<close> accepts.\<close>

fun match_repeat :: "atom \<Rightarrow> nat \<Rightarrow> nat option \<Rightarrow> (string \<Rightarrow> bool) \<Rightarrow> string \<Rightarrow> bool" where
  "match_repeat a lo hi cont [] = (if lo = 0 then cont [] else False)"
| "match_repeat a lo hi cont (x # xs) =
     (if lo = 0 \<and> cont (x # xs) then True
      else if hi = Some 0 then False
      else if atom_matches a x
        then match_repeat a (lo - 1) (map_option (\<lambda>h. h - 1) hi) cont xs
      else False)"

fun match_items :: "item list \<Rightarrow> string \<Rightarrow> bool" where
  "match_items [] s = (s = [])"
| "match_items (Item a lo hi # its) s = match_repeat a lo hi (match_items its) s"

definition boost_regex :: "string \<Rightarrow> (string \<Rightarrow> bool) option" where
  "boost_regex pattern = map_option match_items (parse_items pattern 0 False False [])"

text \<open>
  The matching the specification asks of a wildcard path, for comparison: a star stands
  for one or more characters, whatever they are, and every other character of the path
  stands for itself. \<open>item_of\<close> is the item of a pattern that does this for one
  character.
\<close>

fun glob_match :: "string \<Rightarrow> string \<Rightarrow> bool" where
  "glob_match [] s = (s = [])"
| "glob_match (c # cs) s =
     (if c = CHR ''*'' then list_ex (\<lambda>k. glob_match cs (drop k s)) [1..<Suc (length s)]
      else (case s of [] \<Rightarrow> False | x # xs \<Rightarrow> x = c \<and> glob_match cs xs))"

definition item_of :: "char \<Rightarrow> item" where
  "item_of c = (if c = CHR ''*'' then Item AnyChar 1 None else Item (Lit c) 1 (Some 1))"

subsection \<open>Instances\<close>

text \<open>
  A platform to run the reader on: 100 and 1000 for the two constants, the regular
  expressions of the last subsection, and translators that accept what they are given
  in the documents below.
\<close>

definition example_platform :: platform where
  "example_platform =
     \<lparr>DEFAULT_FRAME_NUMERATOR = 100, DEFAULT_FRAME_DENOMINATOR = 1000,
      translate_uint = lexical_cast_uint,
      translate_bool =
        (\<lambda>s. if s = ''true'' then Some True else if s = ''false'' then Some False else None),
      regex_compile = boost_regex\<rparr>"

text \<open>Two file systems are the same up to the order of enumeration when every path
  has the same status in both and every directory the same entries.\<close>

definition same_node_any_order :: "fnode option \<Rightarrow> fnode option \<Rightarrow> bool" where
  "same_node_any_order a b =
     (case (a, b) of
        (Some (Directory es), Some (Directory es')) \<Rightarrow> mset es = mset es'
      | _ \<Rightarrow> a = b)"

definition same_files_any_order :: "fsys \<Rightarrow> fsys \<Rightarrow> bool" where
  "same_files_any_order fs fs' =
     (cwd fs = cwd fs' \<and> (\<forall>p. same_node_any_order (stat fs p) (stat fs' p)))"

text \<open>
  The instances are file systems without symbolic links, where the canonical form of
  an absolute path is found from the string: empty and dot components are dropped and
  a dot-dot component takes the component before it away. The operating system gives
  the same answer for all spellings of a path.
\<close>

fun components :: "string \<Rightarrow> string \<Rightarrow> string list" where
  "components cur [] = [cur]"
| "components cur (c # cs) =
     (if c = CHR ''/'' then cur # components [] cs else components (cur @ [c]) cs)"

fun resolve_dots :: "string list \<Rightarrow> string list \<Rightarrow> string list" where
  "resolve_dots stack [] = rev stack"
| "resolve_dots stack (x # xs) =
     (if x = [] \<or> x = ''.'' then resolve_dots stack xs
      else if x = ''..'' then resolve_dots (tl stack) xs
      else resolve_dots (x # stack) xs)"

definition canonical :: "string \<Rightarrow> string" where
  "canonical p =
     (case resolve_dots [] (components [] p) of
        [] \<Rightarrow> ''/''
      | xs \<Rightarrow> concat (map (\<lambda>x. CHR ''/'' # x) xs))"

text \<open>A file system with one directory \<open>dir\<close>, which enumerates \<open>entries\<close> and is
  the working directory.\<close>

definition working_dir :: "string \<Rightarrow> (string \<times> bool) list \<Rightarrow> fsys" where
  "working_dir dir entries =
     \<lparr>cwd = dir,
      stat = (\<lambda>p. if canonical p = dir then Some (Directory entries) else None),
      realpath = canonical,
      read_json = (\<lambda>p. None)\<rparr>"

text \<open>
  A project: the working directory is \<^verbatim>\<open>/home\<close>, the directory \<open>dir\<close> enumerates
  \<open>entries\<close>, and \<^verbatim>\<open>spec.json\<close> in \<open>dir\<close> decodes to \<open>doc\<close>. The decoder is called
  in \<^verbatim>\<open>/home\<close>, so a relative file name is taken from there.
\<close>

definition project :: "string \<Rightarrow> (string \<times> bool) list \<Rightarrow> ptree \<Rightarrow> fsys" where
  "project dir entries doc =
     \<lparr>cwd = ''/home'',
      stat = (\<lambda>p. if canonical p = dir then Some (Directory entries)
                  else if canonical p = ''/home'' then Some (Directory [])
                  else None),
      realpath = canonical,
      read_json =
        (\<lambda>p. if canonical (if is_absolute p then p else ''/home/'' @ p) =
                  path_append dir ''spec.json''
             then Some doc else None)\<rparr>"

text \<open>A JSON string, a JSON array and a JSON object with one member, as the decoder
  builds them.\<close>

definition leaf :: "string \<Rightarrow> ptree" where
  "leaf s = Ptree s []"

definition array :: "ptree list \<Rightarrow> ptree" where
  "array xs = Ptree [] (map (\<lambda>x. ([], x)) xs)"

definition member :: "string \<Rightarrow> string \<Rightarrow> ptree" where
  "member key val = Ptree [] [(key, leaf val)]"

text \<open>
  The end-to-end scenario of the specification: the directory holds \<^verbatim>\<open>b1.png\<close>,
  \<^verbatim>\<open>b2.png\<close>, \<^verbatim>\<open>a.png\<close> and \<^verbatim>\<open>c.png\<close>; the document sets \<^verbatim>\<open>loops\<close> to 0,
  \<^verbatim>\<open>skip_first\<close> to true, \<^verbatim>\<open>default_delay\<close> to 1/20, \<^verbatim>\<open>delays\<close> to the list of 1/10
  and \<^verbatim>\<open>frames\<close> to \<^verbatim>\<open>a.png\<close>, the mapping of \<^verbatim>\<open>b*.png\<close> to 3/30, and \<^verbatim>\<open>c.png\<close>.
\<close>

definition scenario_entries :: "(string \<times> bool) list" where
  "scenario_entries =
     [(''b2.png'', True), (''spec.json'', True), (''a.png'', True), (''c.png'', True),
      (''b1.png'', True)]"

definition scenario_frames :: "(string \<times> ptree) list" where
  "scenario_frames = children (array [leaf ''a.png'', member ''b*.png'' ''3/30'', leaf ''c.png''])"

definition scenario_doc :: ptree where
  "scenario_doc =
     Ptree []
       [(''loops'', leaf ''0''), (''skip_first'', leaf ''true''),
        (''default_delay'', leaf ''1/20''), (''delays'', array [leaf ''1/10'']),
        (''frames'', Ptree [] scenario_frames)]"

definition scenario_result :: "FrameInfo list" where
  "scenario_result =
     [\<lparr>filePath = ''/anim/a.png'', delay = \<lparr>num = 1, den = 10\<rparr>\<rparr>,
      \<lparr>filePath = ''/anim/b1.png'', delay = \<lparr>num = 3, den = 30\<rparr>\<rparr>,
      \<lparr>filePath = ''/anim/b2.png'', delay = \<lparr>num = 3, den = 30\<rparr>\<rparr>,
      \<lparr>filePath = ''/anim/c.png'', delay = \<lparr>num = 1, den = 20\<rparr>\<rparr>]"

text \<open>A directory with three numbered images and one other image.\<close>

definition img_entries :: "(string \<times> bool) list" where
  "img_entries =
     [(''img_2.png'', True), (''img_3.png'', True), (''other.png'', True), (''img_1.png'', True)]"

text \<open>A document with an empty \<^verbatim>\<open>delays\<close> list and the one bare frame \<^verbatim>\<open>frame1\<close>.\<close>

definition bare_doc :: ptree where
  "bare_doc = Ptree [] [(''delays'', array []), (''frames'', array [leaf ''frame1''])]"

text \<open>A document without a \<^verbatim>\<open>delays\<close> member, and one without a \<^verbatim>\<open>frames\<close> member.\<close>

definition no_delays_doc :: ptree where
  "no_delays_doc = Ptree [] [(''frames'', array [leaf ''a.png''])]"

definition no_frames_doc :: ptree where
  "no_frames_doc = Ptree [] [(''name'', leaf ''walk''), (''delays'', array [leaf ''1/10''])]"

text \<open>A directory with two images whose names differ in how they read a brace.\<close>

definition brace_entries :: "(string \<times> bool) list" where
  "brace_entries = [(''aax.png'', True), (''a{2}x.png'', True)]"

section \<open>Properties\<close>

subsection \<open>The delay parser\<close>

lemma find_char_None: "find_char s c = None \<longleftrightarrow> c \<notin> set s"
  by (induction s) auto

lemma find_char_split: "c \<notin> set a \<Longrightarrow> find_char (a @ c # b) c = Some (length a)"
  by (induction a) auto

lemma find_char_less: "find_char s c = Some i \<Longrightarrow> i < length s"
  by (induction s arbitrary: i) (auto split: if_splits)

lemma str2delay_no_separator:
  "CHR ''/'' \<notin> set str \<Longrightarrow>
   str2delay P str =
     Inr \<lparr>num = s2u str (DEFAULT_FRAME_NUMERATOR P), den = DEFAULT_FRAME_DENOMINATOR P\<rparr>"
  by (simp add: str2delay_def find_char_None [THEN iffD2])

lemma str2delay_separator:
  "CHR ''/'' \<notin> set a \<Longrightarrow>
   str2delay P (a @ CHR ''/'' # b) =
     Inr \<lparr>num = s2u a (DEFAULT_FRAME_NUMERATOR P), den = s2u b (DEFAULT_FRAME_DENOMINATOR P)\<rparr>"
  by (simp add: str2delay_def substr_def find_char_split)

lemma str2delay_total: "\<exists>d. str2delay P s = Inr d"
  by (auto simp: str2delay_def substr_def split: option.splits dest: find_char_less)

lemmas lexical_cast_eval = lexical_cast_uint_def is_digit_def s2u_def

text \<open>
  Claim C3. \<open>str2delay\<close> returns a delay for every string and never throws. Without a
  slash the whole string is converted to the numerator and the denominator is the
  default constant. With a slash the string is split at the first one (\<open>a\<close> has no
  slash, \<open>b\<close> is everything behind it) and each side is converted on its own. A side
  that does not convert (the empty string, a string that is not a number, a number
  beyond 32 bits) is replaced by its default. The four examples of the specification
  follow.
\<close>

theorem str2delay_total_with_defaults:
  "(\<exists>d. str2delay P str = Inr d) \<and>
   (CHR ''/'' \<notin> set str \<longrightarrow>
      str2delay P str =
        Inr \<lparr>num = s2u str (DEFAULT_FRAME_NUMERATOR P), den = DEFAULT_FRAME_DENOMINATOR P\<rparr>) \<and>
   (CHR ''/'' \<notin> set a \<longrightarrow>
      str2delay P (a @ CHR ''/'' # b) =
        Inr \<lparr>num = s2u a (DEFAULT_FRAME_NUMERATOR P),
             den = s2u b (DEFAULT_FRAME_DENOMINATOR P)\<rparr>) \<and>
   (lexical_cast_uint x = None \<longrightarrow> s2u x dflt = dflt) \<and>
   (lexical_cast_uint x = Some v \<longrightarrow> s2u x dflt = v) \<and>
   lexical_cast_uint [] = None \<and>
   lexical_cast_uint ''x'' = None \<and>
   lexical_cast_uint ''4294967296'' = None \<and>
   str2delay P ''12'' = Inr \<lparr>num = 12, den = DEFAULT_FRAME_DENOMINATOR P\<rparr> \<and>
   str2delay P ''1/30'' = Inr \<lparr>num = 1, den = 30\<rparr> \<and>
   str2delay P ''x/30'' = Inr \<lparr>num = DEFAULT_FRAME_NUMERATOR P, den = 30\<rparr> \<and>
   str2delay P [] =
     Inr \<lparr>num = DEFAULT_FRAME_NUMERATOR P, den = DEFAULT_FRAME_DENOMINATOR P\<rparr>"
proof -
  have ex: "str2delay P ''12'' = Inr \<lparr>num = 12, den = DEFAULT_FRAME_DENOMINATOR P\<rparr>"
    "str2delay P ''1/30'' = Inr \<lparr>num = 1, den = 30\<rparr>"
    "str2delay P ''x/30'' = Inr \<lparr>num = DEFAULT_FRAME_NUMERATOR P, den = 30\<rparr>"
    "str2delay P [] = Inr \<lparr>num = DEFAULT_FRAME_NUMERATOR P, den = DEFAULT_FRAME_DENOMINATOR P\<rparr>"
    by (simp_all add: str2delay_def substr_def lexical_cast_eval)
  have casts: "lexical_cast_uint [] = None" "lexical_cast_uint ''x'' = None"
    "lexical_cast_uint ''4294967296'' = None"
    by (simp_all add: lexical_cast_eval)
  have s2u: "lexical_cast_uint x = None \<longrightarrow> s2u x dflt = dflt"
    "lexical_cast_uint x = Some v \<longrightarrow> s2u x dflt = v"
    by (simp_all add: s2u_def)
  show ?thesis
    using str2delay_total [of P str] str2delay_no_separator [of str P]
      str2delay_separator [of a P b] ex casts s2u
    by blast
qed

theorem str2delay_total_with_defaults_witness:
  "CHR ''/'' \<notin> set ''25'' \<and>
   str2delay example_platform ''25'' = Inr \<lparr>num = 25, den = 1000\<rparr> \<and>
   CHR ''/'' \<notin> set ''3'' \<and>
   str2delay example_platform ''3/x/4'' = Inr \<lparr>num = 3, den = 1000\<rparr> \<and>
   lexical_cast_uint ''1.5'' = None \<and> s2u ''1.5'' 7 = 7 \<and>
   lexical_cast_uint ''4294967295'' = Some 4294967295 \<and> s2u ''4294967295'' 7 = 4294967295"
proof -
  have a: "lexical_cast_uint ''1.5'' = None" by (simp add: lexical_cast_eval)
  have b: "lexical_cast_uint ''4294967295'' = Some 4294967295" by (simp add: lexical_cast_eval)
  have c: "s2u ''x/4'' 1000 = 1000" "s2u ''25'' 100 = 25" "s2u ''3'' 100 = 3"
    by (simp_all add: lexical_cast_eval)
  have d: "DEFAULT_FRAME_NUMERATOR example_platform = 100"
    "DEFAULT_FRAME_DENOMINATOR example_platform = 1000"
    by (simp_all add: example_platform_def)
  note t1 = str2delay_total_with_defaults
    [of example_platform "''25''" "''3''" "''x/4''" "''1.5''" 7 4294967295]
  note t2 = str2delay_total_with_defaults
    [of example_platform "''25''" "''3''" "''x/4''" "''4294967295''" 7 4294967295]
  show ?thesis using t1 t2 a b c d by simp
qed

subsection \<open>Evaluation on instances\<close>

lemmas path_eval = absolute_def is_absolute_def path_append_def parent_path_def
  strip_separators_def exists_path_def directory_iterator_def set_current_path_def
  iends_with_def to_upper_def canonical_def

lemmas regex_eval = replace_escape_def replace_wildcard_def escape_def boost_regex_def
  regex_special_def word_chars_def parse_bound_def is_digit_def

lemmas tree_eval = leaf_def array_def member_def get_child_def get_child_optional_def

lemmas delay_eval = str2delay_def substr_def lexical_cast_eval

lemmas reader_eval = JsonSpecReader_def read_document_def read_scalars_def
  read_default_delay_def AbstractSpecReader_def frame_body_def frame_file_delay_def Let_def

lemma example_platform_sel:
  "DEFAULT_FRAME_NUMERATOR example_platform = 100"
  "DEFAULT_FRAME_DENOMINATOR example_platform = 1000"
  "regex_compile example_platform = boost_regex"
  "translate_uint example_platform = lexical_cast_uint"
  "translate_bool example_platform =
     (\<lambda>s. if s = ''true'' then Some True else if s = ''false'' then Some False else None)"
  by (simp_all add: example_platform_def)

lemma scenario_getFiles:
  "getFiles example_platform (working_dir ''/anim'' scenario_entries) ''a.png'' = Inr [''/anim/a.png'']"
  "getFiles example_platform (working_dir ''/anim'' scenario_entries) ''b*.png'' =
     Inr [''/anim/b1.png'', ''/anim/b2.png'']"
  "getFiles example_platform (working_dir ''/anim'' scenario_entries) ''c.png'' = Inr [''/anim/c.png'']"
  by (simp_all add: getFiles_def working_dir_def scenario_entries_def example_platform_sel
      path_eval regex_eval)

lemma scenario_frames_loop:
  "frames_loop example_platform (working_dir ''/anim'' scenario_entries)
     [\<lparr>num = 1, den = 10\<rparr>] \<lparr>num = 1, den = 20\<rparr> scenario_frames (0, []) =
   Inr (3, scenario_result)"
  by (simp add: scenario_frames_def scenario_result_def frame_body_def frame_file_delay_def
      delay_eval tree_eval scenario_getFiles)

subsection \<open>The loop over the frame declarations\<close>

lemma add_frames_eq:
  "add_frames files d infos = infos @ map (\<lambda>f. \<lparr>filePath = f, delay = d\<rparr>) files"
  by (induction files arbitrary: infos) auto

lemma frame_file_delay_total: "\<exists>fpath d. frame_file_delay P delays dd i frame = Inr (fpath, d)"
proof (cases "children frame")
  case Nil
  then show ?thesis by (simp add: frame_file_delay_def)
next
  case (Cons val rest)
  obtain d where "str2delay P (data (snd val)) = Inr d"
    using str2delay_total by blast
  with Cons show ?thesis by (simp add: frame_file_delay_def)
qed

lemma frame_file_delay_cases:
  "frame_file_delay P delays dd i frame = Inr (fpath, d) \<longleftrightarrow>
     (case children frame of
        [] \<Rightarrow> fpath = data frame \<and> d = (if i < length delays then delays ! i else dd)
      | val # _ \<Rightarrow> fpath = fst val \<and> str2delay P (data (snd val)) = Inr d)"
  by (auto simp: frame_file_delay_def split: list.splits sum.splits)

lemma frame_body_Inr:
  "frame_body P fs delays dd frame (i, acc) = Inr st \<longleftrightarrow>
     (\<exists>fpath d files. frame_file_delay P delays dd i frame = Inr (fpath, d) \<and>
        getFiles P fs fpath = Inr files \<and>
        st = (i + 1, acc @ map (\<lambda>f. \<lparr>filePath = f, delay = d\<rparr>) files))"
  by (auto simp: frame_body_def add_frames_eq split: sum.splits)

lemma frames_loop_Inr:
  "frames_loop P fs delays dd decls (i, acc) = Inr (n, infos) \<Longrightarrow>
   n = i + length decls \<and>
   (\<exists>fss ds. length fss = length decls \<and> length ds = length decls \<and>
      infos = acc @ concat (map2 (\<lambda>files d. map (\<lambda>f. \<lparr>filePath = f, delay = d\<rparr>) files) fss ds) \<and>
      (\<forall>N<length decls. \<exists>fpath.
         frame_file_delay P delays dd (i + N) (snd (decls ! N)) = Inr (fpath, ds ! N) \<and>
         getFiles P fs fpath = Inr (fss ! N)))"
proof (induction decls arbitrary: i acc)
  case Nil
  then show ?case by simp
next
  case (Cons child rest)
  from Cons.prems obtain st where
    body: "frame_body P fs delays dd (snd child) (i, acc) = Inr st" and
    loop: "frames_loop P fs delays dd rest st = Inr (n, infos)"
    by (auto split: sum.splits)
  from body obtain fpath d files where
    fd: "frame_file_delay P delays dd i (snd child) = Inr (fpath, d)" and
    gf: "getFiles P fs fpath = Inr files" and
    st: "st = (i + 1, acc @ map (\<lambda>f. \<lparr>filePath = f, delay = d\<rparr>) files)"
    unfolding frame_body_Inr by blast
  from Cons.IH [OF loop [unfolded st]] obtain fss ds where
    n: "n = i + 1 + length rest" and
    len: "length fss = length rest" "length ds = length rest" and
    infos: "infos = (acc @ map (\<lambda>f. \<lparr>filePath = f, delay = d\<rparr>) files) @
       concat (map2 (\<lambda>files d. map (\<lambda>f. \<lparr>filePath = f, delay = d\<rparr>) files) fss ds)" and
    each: "\<forall>N<length rest. \<exists>fpath.
         frame_file_delay P delays dd (i + 1 + N) (snd (rest ! N)) = Inr (fpath, ds ! N) \<and>
         getFiles P fs fpath = Inr (fss ! N)"
    by blast
  have "\<forall>N<length (child # rest). \<exists>fpath.
         frame_file_delay P delays dd (i + N) (snd ((child # rest) ! N)) = Inr (fpath, (d # ds) ! N) \<and>
         getFiles P fs fpath = Inr ((files # fss) ! N)"
  proof (intro allI impI)
    fix N assume N: "N < length (child # rest)"
    show "\<exists>fpath. frame_file_delay P delays dd (i + N) (snd ((child # rest) ! N)) = Inr (fpath, (d # ds) ! N) \<and>
         getFiles P fs fpath = Inr ((files # fss) ! N)"
    proof (cases N)
      case 0
      with fd gf show ?thesis by auto
    next
      case (Suc M)
      with N each have "\<exists>fpath.
         frame_file_delay P delays dd (i + 1 + M) (snd (rest ! M)) = Inr (fpath, ds ! M) \<and>
         getFiles P fs fpath = Inr (fss ! M)" by simp
      with Suc show ?thesis by simp
    qed
  qed
  moreover have "length (files # fss) = length (child # rest)" "length (d # ds) = length (child # rest)"
    using len by simp_all
  moreover have "infos = acc @ concat (map2 (\<lambda>files d. map (\<lambda>f. \<lparr>filePath = f, delay = d\<rparr>) files) (files # fss) (d # ds))"
    using infos by simp
  ultimately show ?case using n by (intro conjI exI [of _ "files # fss"] exI [of _ "d # ds"]) simp_all
qed

lemma frames_loop_total:
  "\<forall>child \<in> set decls. \<exists>files.
      getFiles P fs (case children (snd child) of [] \<Rightarrow> data (snd child) | val # _ \<Rightarrow> fst val) = Inr files \<Longrightarrow>
   \<exists>st'. frames_loop P fs delays dd decls st = Inr st'"
proof (induction decls arbitrary: st)
  case Nil
  then show ?case by simp
next
  case (Cons child rest)
  obtain i acc where st: "st = (i, acc)" by (cases st)
  obtain fpath d where fd: "frame_file_delay P delays dd i (snd child) = Inr (fpath, d)"
    using frame_file_delay_total by blast
  then have "fpath = (case children (snd child) of [] \<Rightarrow> data (snd child) | val # _ \<Rightarrow> fst val)"
    by (auto simp: frame_file_delay_cases split: list.splits)
  with Cons.prems obtain files where "getFiles P fs fpath = Inr files" by auto
  with fd have "\<exists>st1. frame_body P fs delays dd (snd child) st = Inr st1"
    unfolding st frame_body_Inr by blast
  then obtain st1 where "frame_body P fs delays dd (snd child) st = Inr st1" ..
  moreover have "\<exists>st'. frames_loop P fs delays dd rest st1 = Inr st'"
    by (rule Cons.IH) (use Cons.prems in simp)
  ultimately show ?case by auto
qed

lemma delays_loop_Inr:
  "delays_loop P cs acc = Inr ds \<Longrightarrow>
   \<exists>new. ds = acc @ new \<and> length new = length cs \<and>
     (\<forall>k<length cs. str2delay P (data (snd (cs ! k))) = Inr (new ! k))"
proof (induction cs arbitrary: acc)
  case Nil
  then show ?case by simp
next
  case (Cons child rest)
  from Cons.prems obtain d where
    d: "str2delay P (data (snd child)) = Inr d" and
    loop: "delays_loop P rest (acc @ [d]) = Inr ds"
    by (auto split: sum.splits)
  from Cons.IH [OF loop] obtain new where
    ds: "ds = (acc @ [d]) @ new" and len: "length new = length rest" and
    each: "\<forall>k<length rest. str2delay P (data (snd (rest ! k))) = Inr (new ! k)"
    by blast
  have "\<forall>k<length (child # rest).
      str2delay P (data (snd ((child # rest) ! k))) = Inr ((d # new) ! k)"
    using d each by (auto simp: nth_Cons split: nat.splits)
  with ds len show ?case by (intro exI [of _ "d # new"]) simp
qed

lemma read_document_Inr:
  assumes "read_document P fs root = Inr r"
  shows "\<exists>dnode fnode ds dd m.
     get_child_optional root ''delays'' = Some dnode \<and>
     get_child_optional root ''frames'' = Some fnode \<and>
     length ds = length (children dnode) \<and>
     (\<forall>k<length (children dnode). str2delay P (data (snd (children dnode ! k))) = Inr (ds ! k)) \<and>
     read_default_delay P root = Inr dd \<and>
     frames_loop P fs ds dd (children fnode) (0, []) = Inr (m, frameInfos r)"
proof -
  from assms obtain dd dnode ds fnode st where
    dd: "read_default_delay P root = Inr dd" and
    dn: "get_child_optional root ''delays'' = Some dnode" and
    dl: "delays_loop P (children dnode) [] = Inr ds" and
    fn: "get_child_optional root ''frames'' = Some fnode" and
    fl: "frames_loop P fs ds dd (children fnode) (0, []) = Inr st" and
    r: "r = (read_scalars P root AbstractSpecReader)\<lparr>frameInfos := snd st\<rparr>"
    by (auto simp: read_document_def get_child_def Let_def split: sum.splits option.splits)
  from delays_loop_Inr [OF dl] have
    "length ds = length (children dnode)"
    "\<forall>k<length (children dnode). str2delay P (data (snd (children dnode ! k))) = Inr (ds ! k)"
    by auto
  moreover from fl r have "frames_loop P fs ds dd (children fnode) (0, []) = Inr (fst st, frameInfos r)"
    by simp
  ultimately show ?thesis using dd dn fn by blast
qed

text \<open>
  Claim C1. When the loop over the declarations returns, the frames are those of the
  declarations in order: declaration \<open>N\<close> (counted from 0) contributes the files
  \<open>fss ! N\<close> its path resolves to, all with the delay \<open>ds ! N\<close>. For a bare path
  (a node without children) that delay is \<open>delays ! N\<close> when \<open>N\<close> is less than the
  length of \<open>delays\<close> and the default delay otherwise. For a declaration with a key
  it is the parsed inline token, whatever \<open>delays\<close> holds; the declaration still
  counts as one position. The loop returns whenever every path resolves without an
  exception. In a successful read of a document the loop runs over the children of
  \<^verbatim>\<open>frames\<close> with the parsed children of \<^verbatim>\<open>delays\<close>, in their order, and its
  frames are the frames of the result.
\<close>

theorem positional_delay_rule:
  "(frames_loop P fs delays defaultDelay decls (0, []) = Inr (n, infos) \<longrightarrow>
      n = length decls \<and>
      (\<exists>fss ds. length fss = length decls \<and> length ds = length decls \<and>
         infos = concat (map2 (\<lambda>files d. map (\<lambda>f. \<lparr>filePath = f, delay = d\<rparr>) files) fss ds) \<and>
         (\<forall>N<length decls.
            (case children (snd (decls ! N)) of
               [] \<Rightarrow>
                 getFiles P fs (data (snd (decls ! N))) = Inr (fss ! N) \<and>
                 ds ! N = (if N < length delays then delays ! N else defaultDelay)
             | val # _ \<Rightarrow>
                 getFiles P fs (fst val) = Inr (fss ! N) \<and>
                 str2delay P (data (snd val)) = Inr (ds ! N))))) \<and>
   ((\<forall>child \<in> set decls. \<exists>files.
        getFiles P fs (case children (snd child) of [] \<Rightarrow> data (snd child) | val # _ \<Rightarrow> fst val)
          = Inr files) \<longrightarrow>
      (\<exists>n infos. frames_loop P fs delays defaultDelay decls (0, []) = Inr (n, infos))) \<and>
   (read_document P fs root = Inr r \<longrightarrow>
      (\<exists>dnode fnode ds dd m.
         get_child_optional root ''delays'' = Some dnode \<and>
         get_child_optional root ''frames'' = Some fnode \<and>
         length ds = length (children dnode) \<and>
         (\<forall>k<length (children dnode).
            str2delay P (data (snd (children dnode ! k))) = Inr (ds ! k)) \<and>
         read_default_delay P root = Inr dd \<and>
         frames_loop P fs ds dd (children fnode) (0, []) = Inr (m, frameInfos r)))"
proof (intro conjI impI)
  assume run: "frames_loop P fs delays defaultDelay decls (0, []) = Inr (n, infos)"
  from frames_loop_Inr [OF run] show "n = length decls" by simp
  from frames_loop_Inr [OF run] obtain fss ds where
    len: "length fss = length decls" "length ds = length decls" and
    infos: "infos = concat (map2 (\<lambda>files d. map (\<lambda>f. \<lparr>filePath = f, delay = d\<rparr>) files) fss ds)" and
    each: "\<forall>N<length decls. \<exists>fpath.
         frame_file_delay P delays defaultDelay N (snd (decls ! N)) = Inr (fpath, ds ! N) \<and>
         getFiles P fs fpath = Inr (fss ! N)"
    by auto
  have "\<forall>N<length decls.
            (case children (snd (decls ! N)) of
               [] \<Rightarrow>
                 getFiles P fs (data (snd (decls ! N))) = Inr (fss ! N) \<and>
                 ds ! N = (if N < length delays then delays ! N else defaultDelay)
             | val # _ \<Rightarrow>
                 getFiles P fs (fst val) = Inr (fss ! N) \<and>
                 str2delay P (data (snd val)) = Inr (ds ! N))"
  proof (intro allI impI)
    fix N assume "N < length decls"
    with each obtain fpath where
      "frame_file_delay P delays defaultDelay N (snd (decls ! N)) = Inr (fpath, ds ! N)"
      "getFiles P fs fpath = Inr (fss ! N)" by blast
    then show "case children (snd (decls ! N)) of
               [] \<Rightarrow>
                 getFiles P fs (data (snd (decls ! N))) = Inr (fss ! N) \<and>
                 ds ! N = (if N < length delays then delays ! N else defaultDelay)
             | val # _ \<Rightarrow>
                 getFiles P fs (fst val) = Inr (fss ! N) \<and>
                 str2delay P (data (snd val)) = Inr (ds ! N)"
      by (auto simp: frame_file_delay_cases split: list.splits)
  qed
  with len infos show "\<exists>fss ds. length fss = length decls \<and> length ds = length decls \<and>
         infos = concat (map2 (\<lambda>files d. map (\<lambda>f. \<lparr>filePath = f, delay = d\<rparr>) files) fss ds) \<and>
         (\<forall>N<length decls.
            (case children (snd (decls ! N)) of
               [] \<Rightarrow>
                 getFiles P fs (data (snd (decls ! N))) = Inr (fss ! N) \<and>
                 ds ! N = (if N < length delays then delays ! N else defaultDelay)
             | val # _ \<Rightarrow>
                 getFiles P fs (fst val) = Inr (fss ! N) \<and>
                 str2delay P (data (snd val)) = Inr (ds ! N)))"
    by blast
next
  assume "\<forall>child \<in> set decls. \<exists>files.
        getFiles P fs (case children (snd child) of [] \<Rightarrow> data (snd child) | val # _ \<Rightarrow> fst val)
          = Inr files"
  from frames_loop_total [OF this, of delays defaultDelay "(0, [])"]
  show "\<exists>n infos. frames_loop P fs delays defaultDelay decls (0, []) = Inr (n, infos)"
    by auto
next
  assume "read_document P fs root = Inr r"
  then show "\<exists>dnode fnode ds dd m.
         get_child_optional root ''delays'' = Some dnode \<and>
         get_child_optional root ''frames'' = Some fnode \<and>
         length ds = length (children dnode) \<and>
         (\<forall>k<length (children dnode).
            str2delay P (data (snd (children dnode ! k))) = Inr (ds ! k)) \<and>
         read_default_delay P root = Inr dd \<and>
         frames_loop P fs ds dd (children fnode) (0, []) = Inr (m, frameInfos r)"
    by (rule read_document_Inr)
qed

theorem positional_delay_rule_witness:
  "frames_loop example_platform (working_dir ''/anim'' scenario_entries)
     [\<lparr>num = 1, den = 10\<rparr>] \<lparr>num = 1, den = 20\<rparr> scenario_frames (0, []) =
     Inr (3, scenario_result) \<and>
   (\<exists>fss ds. length fss = 3 \<and> length ds = 3 \<and>
      scenario_result =
        concat (map2 (\<lambda>files d. map (\<lambda>f. \<lparr>filePath = f, delay = d\<rparr>) files) fss ds) \<and>
      ds ! 0 = \<lparr>num = 1, den = 10\<rparr> \<and> ds ! 1 = \<lparr>num = 3, den = 30\<rparr> \<and>
      ds ! 2 = \<lparr>num = 1, den = 20\<rparr> \<and>
      fss ! 1 = [''/anim/b1.png'', ''/anim/b2.png'']) \<and>
   read_document example_platform (working_dir ''/anim'' scenario_entries) scenario_doc =
     Inr \<lparr>name = [], loops = 0, skipFirst = True, frameInfos = scenario_result\<rparr>"
proof -
  let ?fs = "working_dir ''/anim'' scenario_entries"
  have run: "frames_loop example_platform ?fs
     [\<lparr>num = 1, den = 10\<rparr>] \<lparr>num = 1, den = 20\<rparr> scenario_frames (0, []) =
     Inr (3, scenario_result)"
    by (rule scenario_frames_loop)
  have len: "length scenario_frames = 3"
    by (simp add: scenario_frames_def tree_eval)
  from positional_delay_rule [of example_platform ?fs "[\<lparr>num = 1, den = 10\<rparr>]"
      "\<lparr>num = 1, den = 20\<rparr>" scenario_frames 3 scenario_result] run
  obtain fss ds where
    lens: "length fss = length scenario_frames" "length ds = length scenario_frames" and
    res: "scenario_result =
        concat (map2 (\<lambda>files d. map (\<lambda>f. \<lparr>filePath = f, delay = d\<rparr>) files) fss ds)" and
    each: "\<forall>N<length scenario_frames.
            (case children (snd (scenario_frames ! N)) of
               [] \<Rightarrow>
                 getFiles example_platform ?fs (data (snd (scenario_frames ! N))) = Inr (fss ! N) \<and>
                 ds ! N = (if N < length [\<lparr>num = 1, den = 10 :: 32 word\<rparr>]
                           then [\<lparr>num = 1, den = 10\<rparr>] ! N else \<lparr>num = 1, den = 20\<rparr>)
             | val # _ \<Rightarrow>
                 getFiles example_platform ?fs (fst val) = Inr (fss ! N) \<and>
                 str2delay example_platform (data (snd val)) = Inr (ds ! N))"
    by blast
  from each [rule_format, of 0] have d0: "ds ! 0 = \<lparr>num = 1, den = 10\<rparr>"
    by (simp add: scenario_frames_def tree_eval)
  from each [rule_format, of 1] have d1: "ds ! 1 = \<lparr>num = 3, den = 30\<rparr>"
    and f1: "fss ! 1 = [''/anim/b1.png'', ''/anim/b2.png'']"
    by (simp_all add: scenario_frames_def tree_eval delay_eval scenario_getFiles)
  from each [rule_format, of 2] have d2: "ds ! 2 = \<lparr>num = 1, den = 20\<rparr>"
    by (simp add: scenario_frames_def tree_eval)
  have doc: "read_document example_platform ?fs scenario_doc =
     Inr \<lparr>name = [], loops = 0, skipFirst = True, frameInfos = scenario_result\<rparr>"
    by (simp add: read_document_def read_scalars_def read_default_delay_def
        AbstractSpecReader_def scenario_doc_def tree_eval delay_eval example_platform_sel
        scenario_frames_loop)
  from lens len res d0 d1 d2 f1 have
    "\<exists>fss ds. length fss = 3 \<and> length ds = 3 \<and>
      scenario_result =
        concat (map2 (\<lambda>files d. map (\<lambda>f. \<lparr>filePath = f, delay = d\<rparr>) files) fss ds) \<and>
      ds ! 0 = \<lparr>num = 1, den = 10\<rparr> \<and> ds ! 1 = \<lparr>num = 3, den = 30\<rparr> \<and>
      ds ! 2 = \<lparr>num = 1, den = 20\<rparr> \<and>
      fss ! 1 = [''/anim/b1.png'', ''/anim/b2.png'']"
    by auto
  with run doc show ?thesis by (intro conjI)
qed

text \<open>
  Claim C2. One pass through the body of the loop adds one to the positional index,
  whatever the number of files the declaration resolves to, and appends to the frames
  exactly one entry per resolved file, in order, all with the same delay. So the index
  after the loop is the index before it plus the number of declarations.
\<close>

theorem one_slot_per_declaration:
  "(frame_body P fs delays defaultDelay frame (i, acc) = Inr (j, infos) \<longrightarrow>
      j = i + 1 \<and>
      (\<exists>files d.
         getFiles P fs (case children frame of [] \<Rightarrow> data frame | val # _ \<Rightarrow> fst val) = Inr files \<and>
         infos = acc @ map (\<lambda>f. \<lparr>filePath = f, delay = d\<rparr>) files \<and>
         length infos = length acc + length files)) \<and>
   (frames_loop P fs delays defaultDelay decls (i, acc) = Inr (n, infos') \<longrightarrow>
      n = i + length decls)"
proof (intro conjI impI)
  assume body: "frame_body P fs delays defaultDelay frame (i, acc) = Inr (j, infos)"
  then obtain fpath d files where
    fd: "frame_file_delay P delays defaultDelay i frame = Inr (fpath, d)" and
    gf: "getFiles P fs fpath = Inr files" and
    st: "(j, infos) = (i + 1, acc @ map (\<lambda>f. \<lparr>filePath = f, delay = d\<rparr>) files)"
    unfolding frame_body_Inr by blast
  from st show "j = i + 1" by simp
  from fd have "fpath = (case children frame of [] \<Rightarrow> data frame | val # _ \<Rightarrow> fst val)"
    by (auto simp: frame_file_delay_cases split: list.splits)
  with gf st show "\<exists>files d.
         getFiles P fs (case children frame of [] \<Rightarrow> data frame | val # _ \<Rightarrow> fst val) = Inr files \<and>
         infos = acc @ map (\<lambda>f. \<lparr>filePath = f, delay = d\<rparr>) files \<and>
         length infos = length acc + length files"
    by auto
next
  assume "frames_loop P fs delays defaultDelay decls (i, acc) = Inr (n, infos')"
  from frames_loop_Inr [OF this] show "n = i + length decls" by simp
qed

theorem one_slot_per_declaration_witness:
  "frame_body example_platform (working_dir ''/anim'' img_entries) [] \<lparr>num = 1, den = 20\<rparr>
     (member ''img_*.png'' ''2/10'') (4, []) =
     Inr (5, [\<lparr>filePath = ''/anim/img_1.png'', delay = \<lparr>num = 2, den = 10\<rparr>\<rparr>,
              \<lparr>filePath = ''/anim/img_2.png'', delay = \<lparr>num = 2, den = 10\<rparr>\<rparr>,
              \<lparr>filePath = ''/anim/img_3.png'', delay = \<lparr>num = 2, den = 10\<rparr>\<rparr>]) \<and>
   (5 :: nat) = 4 + 1 \<and>
   frames_loop example_platform (working_dir ''/anim'' scenario_entries)
     [\<lparr>num = 1, den = 10\<rparr>] \<lparr>num = 1, den = 20\<rparr> scenario_frames (0, []) =
     Inr (3, scenario_result) \<and>
   (3 :: nat) = 0 + length scenario_frames"
proof -
  let ?fs = "working_dir ''/anim'' scenario_entries"
  let ?img = "working_dir ''/anim'' img_entries"
  let ?out = "[\<lparr>filePath = ''/anim/img_1.png'', delay = \<lparr>num = 2, den = 10\<rparr>\<rparr>,
              \<lparr>filePath = ''/anim/img_2.png'', delay = \<lparr>num = 2, den = 10\<rparr>\<rparr>,
              \<lparr>filePath = ''/anim/img_3.png'', delay = \<lparr>num = 2, den = 10\<rparr>\<rparr>]"
  have files: "getFiles example_platform ?img ''img_*.png'' =
      Inr [''/anim/img_1.png'', ''/anim/img_2.png'', ''/anim/img_3.png'']"
    by (simp add: getFiles_def working_dir_def img_entries_def example_platform_sel
        path_eval regex_eval)
  have body: "frame_body example_platform ?img [] \<lparr>num = 1, den = 20\<rparr>
     (member ''img_*.png'' ''2/10'') (4, []) = Inr (5, ?out)"
    by (simp add: frame_body_def frame_file_delay_def delay_eval tree_eval files)
  have run: "frames_loop example_platform ?fs
     [\<lparr>num = 1, den = 10\<rparr>] \<lparr>num = 1, den = 20\<rparr> scenario_frames (0, []) =
     Inr (3, scenario_result)"
    by (rule scenario_frames_loop)
  note t1 = one_slot_per_declaration [of example_platform ?img "[]" "\<lparr>num = 1, den = 20\<rparr>"
      "member ''img_*.png'' ''2/10''" 4 "[]" 5 ?out, THEN conjunct1, rule_format, OF body]
  note t2 = one_slot_per_declaration [of example_platform ?fs "[\<lparr>num = 1, den = 10\<rparr>]"
      "\<lparr>num = 1, den = 20\<rparr>" _ 0 "[]" _ _ scenario_frames 3 scenario_result,
      THEN conjunct2, rule_format, OF run]
  from t1 t2 body run show ?thesis by simp
qed

subsection \<open>The path resolver\<close>

lemma absolute_update [simp]:
  "absolute (fs\<lparr>stat := st\<rparr>) p = absolute fs p"
  "absolute (fs\<lparr>read_json := rj\<rparr>) p = absolute fs p"
  by (simp_all add: absolute_def)

lemma absolute_no_star:
  "CHR ''*'' \<notin> set p \<Longrightarrow> CHR ''*'' \<notin> set (cwd fs) \<Longrightarrow> CHR ''*'' \<notin> set (absolute fs p)"
  by (auto simp: absolute_def path_append_def)

lemma absolute_of_absolute: "is_absolute p \<Longrightarrow> absolute fs p = p"
  by (auto simp: absolute_def is_absolute_def)

lemma getFiles_unique:
  "CHR ''*'' \<notin> set (absolute fs filepath) \<Longrightarrow>
   getFiles P fs filepath =
     Inr [if iends_with (absolute fs filepath) ''.png'' then absolute fs filepath
          else absolute fs filepath @ ''.png'']"
  by (simp add: getFiles_def)

text \<open>
  Claim C4, as amended. The test for a wildcard is made on the absolute path, not on
  the specification. When the absolute path has no star, \<open>getFiles\<close> returns exactly
  one path: the absolute path itself if it ends in \<^verbatim>\<open>.png\<close> in any letter case, and
  the absolute path with \<^verbatim>\<open>.png\<close> appended otherwise. The absolute path has no star
  when neither the specification nor the working directory has one, and when the
  specification is an absolute path without a star.
\<close>

theorem getFiles_without_wildcard:
  "(CHR ''*'' \<notin> set (absolute fs filepath) \<longrightarrow>
      getFiles P fs filepath =
        Inr [if iends_with (absolute fs filepath) ''.png'' then absolute fs filepath
             else absolute fs filepath @ ''.png'']) \<and>
   (CHR ''*'' \<notin> set filepath \<and> CHR ''*'' \<notin> set (cwd fs) \<longrightarrow>
      CHR ''*'' \<notin> set (absolute fs filepath)) \<and>
   (CHR ''*'' \<notin> set filepath \<and> is_absolute filepath \<longrightarrow>
      absolute fs filepath = filepath \<and> CHR ''*'' \<notin> set (absolute fs filepath))"
  using getFiles_unique [of fs filepath P] absolute_no_star [of filepath fs]
    absolute_of_absolute [of filepath fs]
  by auto

theorem getFiles_without_wildcard_witness:
  "CHR ''*'' \<notin> set ''frame1'' \<and> CHR ''*'' \<notin> set (cwd (working_dir ''/anim'' [])) \<and>
   CHR ''*'' \<notin> set (absolute (working_dir ''/anim'' []) ''frame1'') \<and>
   absolute (working_dir ''/anim'' []) ''frame1'' = ''/anim/frame1'' \<and>
   getFiles example_platform (working_dir ''/anim'' []) ''frame1'' = Inr [''/anim/frame1.png''] \<and>
   CHR ''*'' \<notin> set ''/art/Frame2.PNG'' \<and> is_absolute ''/art/Frame2.PNG'' \<and>
   getFiles example_platform (working_dir ''/anim*'' []) ''/art/Frame2.PNG'' = Inr [''/art/Frame2.PNG'']"
proof -
  have a: "absolute (working_dir ''/anim'' []) ''frame1'' = ''/anim/frame1''"
    by (simp add: working_dir_def path_eval)
  have b: "is_absolute ''/art/Frame2.PNG''" by (simp add: is_absolute_def)
  have c: "iends_with ''/art/Frame2.PNG'' ''.png''" "\<not> iends_with ''/anim/frame1'' ''.png''"
    by (simp_all add: path_eval)
  have d: "cwd (working_dir ''/anim'' []) = ''/anim''" by (simp add: working_dir_def)
  note t1 = getFiles_without_wildcard [of "working_dir ''/anim'' []" "''frame1''" example_platform]
  note t2 = getFiles_without_wildcard [of "working_dir ''/anim*'' []" "''/art/Frame2.PNG''" example_platform]
  show ?thesis using t1 t2 a b c d by simp
qed

text \<open>
  Claim C4 as stated fails: the specification \<^verbatim>\<open>frame1\<close> has no star, but in the
  working directory \<^verbatim>\<open>/anim*\<close> its absolute path has one, the wildcard branch runs,
  the directory \<^verbatim>\<open>/anim.+\<close> does not exist and the result is empty.
\<close>

theorem getFiles_wildcard_from_cwd:
  "CHR ''*'' \<notin> set ''frame1'' \<and>
   getFiles example_platform (working_dir ''/anim*'' [(''frame1.png'', True)]) ''frame1'' = Inr []"
  by (simp add: getFiles_def working_dir_def path_eval regex_eval)

lemma frame_body_bare:
  "getFiles P fs filepath = Inr files \<Longrightarrow>
   frame_body P fs delays dd (Ptree filepath []) (i, acc) =
     Inr (i + 1, acc @ map (\<lambda>f. \<lparr>filePath = f, delay = (if i < length delays then delays ! i else dd)\<rparr>) files)"
  by (simp add: frame_body_def frame_file_delay_def add_frames_eq)

text \<open>
  Claim C10, as amended. When the absolute path of a specification has no star, the
  one path \<open>getFiles\<close> returns is the same whatever the file system holds (\<open>st\<close>
  ranges over all answers of the operating system, among them the one where nothing
  exists), and a bare frame declaration with that specification appends exactly one
  frame with that path: there is no error and no empty expansion.
\<close>

theorem unique_path_ignores_file_system:
  "CHR ''*'' \<notin> set (absolute fs filepath) \<longrightarrow>
     (\<exists>p. (\<forall>st. getFiles P (fs\<lparr>stat := st\<rparr>) filepath = Inr [p]) \<and>
          getFiles P fs filepath = Inr [p] \<and>
          (\<forall>st. frame_body P (fs\<lparr>stat := st\<rparr>) delays dd (Ptree filepath []) (i, acc) =
             Inr (i + 1,
                  acc @ [\<lparr>filePath = p,
                          delay = (if i < length delays then delays ! i else dd)\<rparr>])))"
proof
  assume star: "CHR ''*'' \<notin> set (absolute fs filepath)"
  let ?p = "if iends_with (absolute fs filepath) ''.png'' then absolute fs filepath
          else absolute fs filepath @ ''.png''"
  have g: "getFiles P (fs\<lparr>stat := st\<rparr>) filepath = Inr [?p]" for st
    using star getFiles_unique [of "fs\<lparr>stat := st\<rparr>" filepath P] by simp
  have g0: "getFiles P fs filepath = Inr [?p]"
    using star by (rule getFiles_unique)
  have b: "frame_body P (fs\<lparr>stat := st\<rparr>) delays dd (Ptree filepath []) (i, acc) =
             Inr (i + 1,
                  acc @ [\<lparr>filePath = ?p,
                          delay = (if i < length delays then delays ! i else dd)\<rparr>])" for st
    using frame_body_bare [OF g [of st], of delays dd i acc] by simp
  from g g0 b show "\<exists>p. (\<forall>st. getFiles P (fs\<lparr>stat := st\<rparr>) filepath = Inr [p]) \<and>
          getFiles P fs filepath = Inr [p] \<and>
          (\<forall>st. frame_body P (fs\<lparr>stat := st\<rparr>) delays dd (Ptree filepath []) (i, acc) =
             Inr (i + 1,
                  acc @ [\<lparr>filePath = p,
                          delay = (if i < length delays then delays ! i else dd)\<rparr>]))"
    by blast
qed

theorem unique_path_ignores_file_system_witness:
  "CHR ''*'' \<notin> set (absolute (working_dir ''/anim'' []) ''frame1'') \<and>
   getFiles example_platform ((working_dir ''/anim'' [])\<lparr>stat := (\<lambda>p. None)\<rparr>) ''frame1'' =
     Inr [''/anim/frame1.png''] \<and>
   frame_body example_platform ((working_dir ''/anim'' [])\<lparr>stat := (\<lambda>p. None)\<rparr>)
     [] \<lparr>num = 1, den = 20\<rparr> (Ptree ''frame1'' []) (0, []) =
     Inr (0 + 1, [] @ [\<lparr>filePath = ''/anim/frame1.png'', delay = \<lparr>num = 1, den = 20\<rparr>\<rparr>])"
proof -
  let ?fs = "working_dir ''/anim'' []"
  have a: "absolute ?fs ''frame1'' = ''/anim/frame1''"
    by (simp add: working_dir_def path_eval)
  then have star: "CHR ''*'' \<notin> set (absolute ?fs ''frame1'')" by simp
  have g0: "getFiles example_platform ?fs ''frame1'' = Inr [''/anim/frame1.png'']"
    by (simp add: getFiles_def working_dir_def path_eval)
  from unique_path_ignores_file_system [of ?fs "''frame1''" example_platform "[]"
      "\<lparr>num = 1, den = 20\<rparr>" 0 "[]"] star
  obtain p where
    g: "\<forall>st. getFiles example_platform (?fs\<lparr>stat := st\<rparr>) ''frame1'' = Inr [p]" and
    p: "getFiles example_platform ?fs ''frame1'' = Inr [p]" and
    b: "\<forall>st. frame_body example_platform (?fs\<lparr>stat := st\<rparr>) [] \<lparr>num = 1, den = 20\<rparr>
          (Ptree ''frame1'' []) (0, []) =
          Inr (0 + 1, [] @ [\<lparr>filePath = p,
             delay = (if 0 < length ([] :: Delay list) then [] ! 0 else \<lparr>num = 1, den = 20\<rparr>)\<rparr>])"
    by blast
  from p g0 have "p = ''/anim/frame1.png''" by simp
  with g [rule_format, of "\<lambda>p. None"] b [rule_format, of "\<lambda>p. None"] star
  show ?thesis by simp
qed

text \<open>
  Claim C10 as stated fails: the bare frame \<^verbatim>\<open>frame1\<close> has no star, but a document
  in the directory \<^verbatim>\<open>/anim*\<close> is read in that working directory, where the frame
  takes the wildcard branch. The load succeeds with no frame at all, although
  \<^verbatim>\<open>frame1.png\<close> is there.
\<close>

theorem bare_frame_dropped_in_starred_directory:
  "CHR ''*'' \<notin> set ''frame1'' \<and>
   read_json (project ''/anim*'' [(''frame1.png'', True)] bare_doc) ''/anim*/spec.json'' = Some bare_doc \<and>
   fst (JsonSpecReader example_platform (project ''/anim*'' [(''frame1.png'', True)] bare_doc)
          ''/anim*/spec.json'') =
     Inr \<lparr>name = [], loops = 0, skipFirst = False, frameInfos = []\<rparr>"
  by (simp add: reader_eval project_def bare_doc_def tree_eval frames_loop.simps
      getFiles_def path_eval regex_eval example_platform_sel)

lemma search_files_eq:
  "search_files f es acc =
     acc @ map fst (filter (\<lambda>e. snd e \<and> f (fst e) \<and> iends_with (fst e) ''.png'') es)"
  by (induction f es acc rule: search_files.induct) auto

lemma sort_mset_cong: "mset xs = mset ys \<Longrightarrow> sort xs = sort ys"
  for xs :: "'a :: linorder list"
  by (rule properties_for_sort) simp_all

lemma getFiles_sorted: "getFiles P fs filepath = Inr files \<Longrightarrow> sorted files"
  by (auto simp: getFiles_def Let_def split: if_splits option.splits sum.splits)

lemma same_order_exists:
  "same_files_any_order fs fs' \<Longrightarrow> exists_path fs' d = exists_path fs d"
proof -
  assume "same_files_any_order fs fs'"
  then have "same_node_any_order (stat fs d) (stat fs' d)"
    by (simp add: same_files_any_order_def)
  then show ?thesis
    by (cases "stat fs d"; cases "stat fs' d")
      (auto simp: same_node_any_order_def exists_path_def split: fnode.splits)
qed

lemma same_order_directory:
  assumes "same_node_any_order a b" and "a = Some (Directory es)"
  shows "\<exists>es'. b = Some (Directory es') \<and> mset es = mset es'"
proof (cases b)
  case None
  with assms show ?thesis by (simp add: same_node_any_order_def)
next
  case (Some node)
  with assms show ?thesis by (cases node) (simp_all add: same_node_any_order_def)
qed

lemma same_order_other:
  assumes "same_node_any_order a b" and "\<forall>es. a \<noteq> Some (Directory es)"
  shows "b = a"
proof (cases a)
  case None
  with assms show ?thesis by (simp add: same_node_any_order_def)
next
  case (Some node)
  with assms show ?thesis by (cases node) (simp_all add: same_node_any_order_def)
qed

lemma same_order_sorted_search:
  assumes "same_files_any_order fs fs'"
  shows "(case directory_iterator fs' d of Inl e \<Rightarrow> Inl e
          | Inr entries \<Rightarrow> Inr (sort (search_files f entries []))) =
         (case directory_iterator fs d of Inl e \<Rightarrow> Inl e
          | Inr entries \<Rightarrow> Inr (sort (search_files f entries [])))"
proof -
  from assms have rel: "same_node_any_order (stat fs d) (stat fs' d)"
    by (simp add: same_files_any_order_def)
  show ?thesis
  proof (cases "\<exists>es. stat fs d = Some (Directory es)")
    case True
    then obtain es where es: "stat fs d = Some (Directory es)" ..
    from same_order_directory [OF rel es] obtain es' where
      es': "stat fs' d = Some (Directory es')" and m: "mset es = mset es'"
      by blast
    let ?g = "\<lambda>entry :: string \<times> bool. (path_append d (fst entry), snd entry)"
    let ?keep = "\<lambda>e :: string \<times> bool. snd e \<and> f (fst e) \<and> iends_with (fst e) ''.png''"
    have "mset (map fst (filter ?keep (map ?g es'))) = mset (map fst (filter ?keep (map ?g es)))"
      by (simp only: mset_map mset_filter m)
    then have "sort (map fst (filter ?keep (map ?g es'))) = sort (map fst (filter ?keep (map ?g es)))"
      by (rule sort_mset_cong)
    then have "sort (search_files f (map ?g es') []) = sort (search_files f (map ?g es) [])"
      by (simp only: search_files_eq append_Nil)
    with es es' show ?thesis by (simp add: directory_iterator_def)
  next
    case False
    then have "\<forall>es. stat fs d \<noteq> Some (Directory es)" by blast
    from same_order_other [OF rel this] show ?thesis
      by (simp add: directory_iterator_def)
  qed
qed

lemma getFiles_same_order:
  assumes "same_files_any_order fs fs'"
  shows "getFiles P fs' filepath = getFiles P fs filepath"
proof -
  from assms have "cwd fs' = cwd fs" by (simp add: same_files_any_order_def)
  then have a: "absolute fs' filepath = absolute fs filepath" by (simp add: absolute_def)
  note s = same_order_sorted_search [OF assms]
  show ?thesis
    unfolding getFiles_def a
    by (simp add: Let_def same_order_exists [OF assms] s split: option.splits)
qed

lemma working_dir_same_order:
  "mset es = mset es' \<Longrightarrow> same_files_any_order (working_dir d es) (working_dir d es')"
  by (simp add: same_files_any_order_def same_node_any_order_def working_dir_def)

lemma abc_getFiles:
  "regex_compile P = boost_regex \<Longrightarrow>
   getFiles P (working_dir ''/anim'' [(''b.png'', True), (''a.png'', True), (''c.png'', True)]) ''*.png'' =
     Inr [''/anim/a.png'', ''/anim/b.png'', ''/anim/c.png'']"
  by (simp add: getFiles_def working_dir_def path_eval regex_eval)

text \<open>
  What the code keeps of the ordering of wildcard results. Whatever \<open>getFiles\<close>
  returns is sorted in ascending lexicographic order. Two file systems that differ only
  in the order in which directories enumerate their entries give the same result. In
  the directory \<^verbatim>\<open>/anim\<close> holding \<^verbatim>\<open>b.png\<close>, \<^verbatim>\<open>a.png\<close> and \<^verbatim>\<open>c.png\<close>, enumerated in
  any order, the pattern \<^verbatim>\<open>*.png\<close> yields exactly the three paths in the order a, b, c.
\<close>

theorem getFiles_sorted_any_enumeration:
  "(getFiles P fs filepath = Inr files \<longrightarrow> sorted files) \<and>
   (same_files_any_order fs fs' \<longrightarrow> getFiles P fs' filepath = getFiles P fs filepath) \<and>
   (regex_compile P = boost_regex \<and>
    mset entries = mset [(''b.png'', True), (''a.png'', True), (''c.png'', True)] \<longrightarrow>
      getFiles P (working_dir ''/anim'' entries) ''*.png'' =
        Inr [''/anim/a.png'', ''/anim/b.png'', ''/anim/c.png''])"
proof (intro conjI impI)
  assume "getFiles P fs filepath = Inr files"
  then show "sorted files" by (rule getFiles_sorted)
next
  assume "same_files_any_order fs fs'"
  then show "getFiles P fs' filepath = getFiles P fs filepath" by (rule getFiles_same_order)
next
  assume h: "regex_compile P = boost_regex \<and>
    mset entries = mset [(''b.png'', True), (''a.png'', True), (''c.png'', True)]"
  then have "same_files_any_order
      (working_dir ''/anim'' [(''b.png'', True), (''a.png'', True), (''c.png'', True)])
      (working_dir ''/anim'' entries)"
    by (intro working_dir_same_order) simp
  from getFiles_same_order [OF this, of P "''*.png''"] abc_getFiles [of P] h
  show "getFiles P (working_dir ''/anim'' entries) ''*.png'' =
        Inr [''/anim/a.png'', ''/anim/b.png'', ''/anim/c.png'']"
    by simp
qed

theorem getFiles_sorted_any_enumeration_witness:
  "getFiles example_platform (working_dir ''/anim'' scenario_entries) ''b*.png'' =
     Inr [''/anim/b1.png'', ''/anim/b2.png''] \<and>
   sorted [''/anim/b1.png'', ''/anim/b2.png''] \<and>
   same_files_any_order (working_dir ''/anim'' scenario_entries)
     (working_dir ''/anim'' (rev scenario_entries)) \<and>
   getFiles example_platform (working_dir ''/anim'' (rev scenario_entries)) ''b*.png'' =
     Inr [''/anim/b1.png'', ''/anim/b2.png''] \<and>
   regex_compile example_platform = boost_regex \<and>
   mset [(''c.png'', True), (''b.png'', True), (''a.png'', True)] =
     mset [(''b.png'', True), (''a.png'', True), (''c.png'', True)] \<and>
   getFiles example_platform
     (working_dir ''/anim'' [(''c.png'', True), (''b.png'', True), (''a.png'', True)]) ''*.png'' =
     Inr [''/anim/a.png'', ''/anim/b.png'', ''/anim/c.png'']"
proof -
  let ?fs = "working_dir ''/anim'' scenario_entries"
  let ?fs' = "working_dir ''/anim'' (rev scenario_entries)"
  let ?cba = "[(''c.png'', True), (''b.png'', True), (''a.png'', True)]"
  have g: "getFiles example_platform ?fs ''b*.png'' = Inr [''/anim/b1.png'', ''/anim/b2.png'']"
    by (rule scenario_getFiles)
  have s: "same_files_any_order ?fs ?fs'"
    by (rule working_dir_same_order) simp
  have m: "mset ?cba = mset [(''b.png'', True), (''a.png'', True), (''c.png'', True)]"
    by simp
  have r: "regex_compile example_platform = boost_regex"
    by (rule example_platform_sel)
  note t = getFiles_sorted_any_enumeration [of example_platform ?fs "''b*.png''"
      "[''/anim/b1.png'', ''/anim/b2.png'']" ?fs' ?cba]
  have c1: "sorted [''/anim/b1.png'', ''/anim/b2.png'']"
    using t [THEN conjunct1] g by (rule mp)
  have c2: "getFiles example_platform ?fs' ''b*.png'' = getFiles example_platform ?fs ''b*.png''"
    using t [THEN conjunct2, THEN conjunct1] s by (rule mp)
  have c3: "getFiles example_platform (working_dir ''/anim'' ?cba) ''*.png'' =
     Inr [''/anim/a.png'', ''/anim/b.png'', ''/anim/c.png'']"
    using t [THEN conjunct2, THEN conjunct2] conjI [OF r m] by (rule mp)
  from c2 g have c2': "getFiles example_platform ?fs' ''b*.png'' =
     Inr [''/anim/b1.png'', ''/anim/b2.png'']"
    by (rule trans)
  from g c1 s c2' r m c3 show ?thesis by (intro conjI)
qed

text \<open>
  Claim C5 fails on the code. The directory part of the path goes through the same two
  replacements as the file name, and the parent directory that is looked up and
  enumerated is the parent of the converted string. In the directory \<^verbatim>\<open>/my.anim\<close>
  holding \<^verbatim>\<open>b.png\<close>, \<^verbatim>\<open>a.png\<close> and \<^verbatim>\<open>c.png\<close> the pattern \<^verbatim>\<open>*.png\<close> is converted to
  a string whose parent has a backslash before the dot. No such directory exists, so
  the result is empty and not the three paths in order, although the matching of the
  specification accepts each of them. The same happens to \<^verbatim>\<open>./*.png\<close> in \<^verbatim>\<open>/anim\<close>.
\<close>

theorem wildcard_in_escaped_directory_finds_nothing:
  "getFiles example_platform
     (working_dir ''/my.anim'' [(''b.png'', True), (''a.png'', True), (''c.png'', True)]) ''*.png'' =
     Inr [] \<and>
   replace_wildcard (replace_escape ''/my.anim/*.png'') =
     ''/my'' @ [CHR 0x5C] @ ''.anim/.+'' @ [CHR 0x5C] @ ''.png'' \<and>
   parent_path (''/my'' @ [CHR 0x5C] @ ''.anim/.+'' @ [CHR 0x5C] @ ''.png'') =
     ''/my'' @ [CHR 0x5C] @ ''.anim'' \<and>
   \<not> exists_path
     (working_dir ''/my.anim'' [(''b.png'', True), (''a.png'', True), (''c.png'', True)])
     (''/my'' @ [CHR 0x5C] @ ''.anim'') \<and>
   glob_match ''/my.anim/*.png'' ''/my.anim/a.png'' \<and>
   glob_match ''/my.anim/*.png'' ''/my.anim/b.png'' \<and>
   glob_match ''/my.anim/*.png'' ''/my.anim/c.png'' \<and>
   getFiles example_platform
     (working_dir ''/anim'' [(''b.png'', True), (''a.png'', True), (''c.png'', True)]) ''./*.png'' =
     Inr []"
proof -
  have "getFiles example_platform
     (working_dir ''/my.anim'' [(''b.png'', True), (''a.png'', True), (''c.png'', True)]) ''*.png'' =
     Inr []"
    "getFiles example_platform
     (working_dir ''/anim'' [(''b.png'', True), (''a.png'', True), (''c.png'', True)]) ''./*.png'' =
     Inr []"
    by (simp_all add: getFiles_def working_dir_def path_eval regex_eval)
  moreover have "glob_match ''/my.anim/*.png'' ''/my.anim/a.png''"
    "glob_match ''/my.anim/*.png'' ''/my.anim/b.png''"
    "glob_match ''/my.anim/*.png'' ''/my.anim/c.png''"
    by simp_all
  ultimately show ?thesis
    by (simp add: working_dir_def path_eval replace_escape_def replace_wildcard_def escape_def)
qed

subsection \<open>The readers\<close>

lemma delays_loop_total: "\<exists>ds. delays_loop P cs acc = Inr ds"
proof (induction cs arbitrary: acc)
  case Nil
  show ?case by simp
next
  case (Cons child rest)
  obtain d where "str2delay P (data (snd child)) = Inr d"
    using str2delay_total by blast
  with Cons.IH [of "acc @ [d]"] show ?case by simp
qed

lemma read_default_delay_total: "\<exists>d. read_default_delay P root = Inr d"
  using str2delay_total by (auto simp: read_default_delay_def split: option.splits)

lemma read_document_no_delays:
  "get_child_optional root ''delays'' = None \<Longrightarrow>
   read_document P fs root = Inl (ptree_bad_path ''delays'')"
  using read_default_delay_total [of P root]
  by (auto simp: read_document_def get_child_def)

lemma read_document_no_frames:
  assumes "get_child_optional root ''frames'' = None"
  shows "\<exists>e. read_document P fs root = Inl e"
    and "get_child_optional root ''delays'' = Some dnode \<Longrightarrow>
         read_document P fs root = Inl (ptree_bad_path ''frames'')"
proof -
  obtain dd where dd: "read_default_delay P root = Inr dd"
    using read_default_delay_total by blast
  show "\<exists>e. read_document P fs root = Inl e"
  proof (cases "get_child_optional root ''delays''")
    case None
    then show ?thesis by (simp add: read_document_no_delays)
  next
    case (Some dnode)
    obtain ds where "delays_loop P (children dnode) [] = Inr ds"
      using delays_loop_total by blast
    with Some dd assms show ?thesis by (simp add: read_document_def get_child_def)
  qed
  assume d: "get_child_optional root ''delays'' = Some dnode"
  obtain ds where "delays_loop P (children dnode) [] = Inr ds"
    using delays_loop_total by blast
  with d dd assms show "read_document P fs root = Inl (ptree_bad_path ''frames'')"
    by (simp add: read_document_def get_child_def)
qed

lemma JsonSpecReader_document_error:
  "read_json fs specPath = Some root \<Longrightarrow>
   set_current_path fs (parent_path specPath) = Inr fs1 \<Longrightarrow>
   read_document P fs1 root = Inl e \<Longrightarrow>
   JsonSpecReader P fs specPath = (Inl e, fs1)"
  by (simp add: JsonSpecReader_def)

text \<open>
  Claim C6. When the document has no \<^verbatim>\<open>frames\<close> member, the JSON reader (and
  \<open>SpecReader\<close> on a file name ending in \<^verbatim>\<open>.json\<close>) ends with an exception and
  returns no object, so no empty frame list is handed out. When the change of directory
  succeeded and \<^verbatim>\<open>delays\<close> is present, the exception is the bad-path error that
  names \<^verbatim>\<open>frames\<close>.
\<close>

theorem missing_frames_is_fatal:
  "read_json fs specPath = Some root \<and> get_child_optional root ''frames'' = None \<longrightarrow>
     (\<exists>e. fst (JsonSpecReader P fs specPath) = Inl e) \<and>
     (iends_with specPath ''.json'' \<longrightarrow> (\<exists>e. fst (SpecReader P fs specPath) = Inl e)) \<and>
     (set_current_path fs (parent_path specPath) = Inr fs1 \<and>
      get_child_optional root ''delays'' = Some dnode \<longrightarrow>
        JsonSpecReader P fs specPath = (Inl (ptree_bad_path ''frames''), fs1))"
proof (intro impI, elim conjE)
  assume doc: "read_json fs specPath = Some root"
    and nf: "get_child_optional root ''frames'' = None"
  have fatal: "\<exists>e. fst (JsonSpecReader P fs specPath) = Inl e"
  proof (cases "set_current_path fs (parent_path specPath)")
    case (Inl e)
    with doc show ?thesis by (simp add: JsonSpecReader_def)
  next
    case (Inr fs')
    from read_document_no_frames(1) [OF nf, of P fs'] obtain e where
      "read_document P fs' root = Inl e" ..
    from JsonSpecReader_document_error [OF doc Inr this] show ?thesis by simp
  qed
  moreover have "set_current_path fs (parent_path specPath) = Inr fs1 \<and>
      get_child_optional root ''delays'' = Some dnode \<longrightarrow>
        JsonSpecReader P fs specPath = (Inl (ptree_bad_path ''frames''), fs1)"
  proof (intro impI, elim conjE)
    assume cd: "set_current_path fs (parent_path specPath) = Inr fs1"
      and d: "get_child_optional root ''delays'' = Some dnode"
    from JsonSpecReader_document_error [OF doc cd read_document_no_frames(2) [OF nf d]]
    show "JsonSpecReader P fs specPath = (Inl (ptree_bad_path ''frames''), fs1)" .
  qed
  ultimately show "(\<exists>e. fst (JsonSpecReader P fs specPath) = Inl e) \<and>
     (iends_with specPath ''.json'' \<longrightarrow> (\<exists>e. fst (SpecReader P fs specPath) = Inl e)) \<and>
     (set_current_path fs (parent_path specPath) = Inr fs1 \<and>
      get_child_optional root ''delays'' = Some dnode \<longrightarrow>
        JsonSpecReader P fs specPath = (Inl (ptree_bad_path ''frames''), fs1))"
    by (simp add: SpecReader_def)
qed

lemma no_frames_project:
  "read_json (project ''/anim'' [] no_frames_doc) ''/anim/spec.json'' = Some no_frames_doc"
  "get_child_optional no_frames_doc ''frames'' = None"
  "get_child_optional no_frames_doc ''delays'' = Some (array [leaf ''1/10''])"
  "set_current_path (project ''/anim'' [] no_frames_doc) (parent_path ''/anim/spec.json'') =
     Inr ((project ''/anim'' [] no_frames_doc)\<lparr>cwd := ''/anim''\<rparr>)"
  "iends_with ''/anim/spec.json'' ''.json''"
  "cwd (project ''/anim'' [] no_frames_doc) = ''/home''"
  by (simp_all add: project_def no_frames_doc_def tree_eval path_eval)

theorem missing_frames_is_fatal_witness:
  "read_json (project ''/anim'' [] no_frames_doc) ''/anim/spec.json'' = Some no_frames_doc \<and>
   get_child_optional no_frames_doc ''frames'' = None \<and>
   iends_with ''/anim/spec.json'' ''.json'' \<and>
   fst (SpecReader example_platform (project ''/anim'' [] no_frames_doc) ''/anim/spec.json'') =
     Inl (ptree_bad_path ''frames'') \<and>
   fst (JsonSpecReader example_platform (project ''/anim'' [] no_frames_doc) ''/anim/spec.json'') =
     Inl (ptree_bad_path ''frames'')"
proof -
  note t = missing_frames_is_fatal [of "project ''/anim'' [] no_frames_doc" "''/anim/spec.json''"
      no_frames_doc example_platform "(project ''/anim'' [] no_frames_doc)\<lparr>cwd := ''/anim''\<rparr>"
      "array [leaf ''1/10'']"]
  from t no_frames_project show ?thesis by (simp add: SpecReader_def)
qed

text \<open>On success the working directory is back where it was, and nothing else of the
  process state has changed. The working directory a process starts in is an absolute
  canonical path.\<close>

lemma set_current_path_cwd:
  "set_current_path fs p = Inr fs1 \<Longrightarrow> fs1 = fs\<lparr>cwd := realpath fs (absolute fs p)\<rparr>"
  by (auto simp: set_current_path_def split: if_splits option.splits fnode.splits)

lemma JsonSpecReader_success_restores:
  assumes "JsonSpecReader P fs specPath = (Inr this, fs')"
    and "is_absolute (cwd fs)" and "realpath fs (cwd fs) = cwd fs"
  shows "fs' = fs"
proof -
  from assms(1) obtain root fs1 where
    enter: "set_current_path fs (parent_path specPath) = Inr fs1" and
    leave: "set_current_path fs1 (cwd fs) = Inr fs'"
    by (auto simp: JsonSpecReader_def Let_def split: option.splits sum.splits)
  from set_current_path_cwd [OF enter]
  have fs1: "fs1 = fs\<lparr>cwd := realpath fs (absolute fs (parent_path specPath))\<rparr>" .
  from set_current_path_cwd [OF leave]
  have "fs' = fs1\<lparr>cwd := realpath fs1 (absolute fs1 (cwd fs))\<rparr>" .
  moreover have "absolute fs1 (cwd fs) = cwd fs"
    using assms(2) by (rule absolute_of_absolute)
  moreover have "realpath fs1 = realpath fs" by (simp add: fs1)
  ultimately show ?thesis using assms(3) by (simp add: fs1)
qed

text \<open>
  Claim C8 fails on the code. The document decodes, the reader changes into
  \<^verbatim>\<open>/anim\<close>, and \<^verbatim>\<open>get_child\<close> throws because there is no \<^verbatim>\<open>frames\<close> member. The
  exception leaves the constructor before the statement that resets the directory:
  the process started in \<^verbatim>\<open>/home\<close> and is left in \<^verbatim>\<open>/anim\<close>.
\<close>

theorem cwd_left_changed_after_failure:
  "JsonSpecReader example_platform (project ''/anim'' [] no_frames_doc) ''/anim/spec.json'' =
     (Inl (ptree_bad_path ''frames''), (project ''/anim'' [] no_frames_doc)\<lparr>cwd := ''/anim''\<rparr>) \<and>
   cwd (project ''/anim'' [] no_frames_doc) = ''/home'' \<and>
   cwd (snd (JsonSpecReader example_platform (project ''/anim'' [] no_frames_doc)
               ''/anim/spec.json'')) = ''/anim''"
proof -
  have "JsonSpecReader example_platform (project ''/anim'' [] no_frames_doc) ''/anim/spec.json'' =
     (Inl (ptree_bad_path ''frames''), (project ''/anim'' [] no_frames_doc)\<lparr>cwd := ''/anim''\<rparr>)"
    by (simp add: reader_eval project_def no_frames_doc_def tree_eval delay_eval path_eval)
  then show ?thesis by (simp add: project_def)
qed

lemma frame_file_delay_no_delays:
  "children frame = [] \<Longrightarrow> frame_file_delay P [] dd i frame = Inr (data frame, dd)"
  by (simp add: frame_file_delay_def)

text \<open>
  Claim C7, as amended. A document without a \<^verbatim>\<open>delays\<close> member is not read: once
  the reader is in the directory of the file, the load ends with the bad-path error
  that names \<^verbatim>\<open>delays\<close>, before any frame is looked at. With a \<^verbatim>\<open>delays\<close> member
  that is present and empty the frames are read against the empty list of delays, and
  then every frame declaration without an inline delay gets the default delay.
\<close>

theorem missing_delays_is_fatal:
  "(read_json fs specPath = Some root \<and>
    set_current_path fs (parent_path specPath) = Inr fs1 \<and>
    get_child_optional root ''delays'' = None \<longrightarrow>
      JsonSpecReader P fs specPath = (Inl (ptree_bad_path ''delays''), fs1)) \<and>
   (get_child_optional root ''delays'' = Some dnode \<and> children dnode = [] \<and>
    get_child_optional root ''frames'' = Some fnode \<and> read_default_delay P root = Inr dd \<longrightarrow>
      read_document P fs root =
        (case frames_loop P fs [] dd (children fnode) (0, []) of
           Inl e \<Rightarrow> Inl e
         | Inr st \<Rightarrow> Inr ((read_scalars P root AbstractSpecReader)\<lparr>frameInfos := snd st\<rparr>))) \<and>
   (children frame = [] \<longrightarrow> frame_file_delay P [] dd i frame = Inr (data frame, dd))"
proof (intro conjI impI)
  assume "read_json fs specPath = Some root \<and>
    set_current_path fs (parent_path specPath) = Inr fs1 \<and>
    get_child_optional root ''delays'' = None"
  then show "JsonSpecReader P fs specPath = (Inl (ptree_bad_path ''delays''), fs1)"
    using JsonSpecReader_document_error [of fs specPath root fs1 P "ptree_bad_path ''delays''"]
      read_document_no_delays [of root P fs1]
    by blast
next
  assume "get_child_optional root ''delays'' = Some dnode \<and> children dnode = [] \<and>
    get_child_optional root ''frames'' = Some fnode \<and> read_default_delay P root = Inr dd"
  then show "read_document P fs root =
        (case frames_loop P fs [] dd (children fnode) (0, []) of
           Inl e \<Rightarrow> Inl e
         | Inr st \<Rightarrow> Inr ((read_scalars P root AbstractSpecReader)\<lparr>frameInfos := snd st\<rparr>))"
    by (simp add: read_document_def get_child_def)
next
  assume "children frame = []"
  then show "frame_file_delay P [] dd i frame = Inr (data frame, dd)"
    by (rule frame_file_delay_no_delays)
qed

theorem missing_delays_is_fatal_witness:
  "read_json (project ''/anim'' [(''a.png'', True)] no_delays_doc) ''/anim/spec.json'' =
     Some no_delays_doc \<and>
   set_current_path (project ''/anim'' [(''a.png'', True)] no_delays_doc)
     (parent_path ''/anim/spec.json'') =
     Inr ((project ''/anim'' [(''a.png'', True)] no_delays_doc)\<lparr>cwd := ''/anim''\<rparr>) \<and>
   get_child_optional no_delays_doc ''delays'' = None \<and>
   JsonSpecReader example_platform (project ''/anim'' [(''a.png'', True)] no_delays_doc)
     ''/anim/spec.json'' =
     (Inl (ptree_bad_path ''delays''),
      (project ''/anim'' [(''a.png'', True)] no_delays_doc)\<lparr>cwd := ''/anim''\<rparr>) \<and>
   get_child_optional bare_doc ''delays'' = Some (array []) \<and> children (array []) = [] \<and>
   get_child_optional bare_doc ''frames'' = Some (array [leaf ''frame1'']) \<and>
   read_default_delay example_platform bare_doc = Inr \<lparr>num = 100, den = 1000\<rparr> \<and>
   read_document example_platform (working_dir ''/anim'' []) bare_doc =
     Inr \<lparr>name = [], loops = 0, skipFirst = False,
          frameInfos = [\<lparr>filePath = ''/anim/frame1.png'', delay = \<lparr>num = 100, den = 1000\<rparr>\<rparr>]\<rparr> \<and>
   children (leaf ''frame1'') = [] \<and>
   frame_file_delay example_platform [] \<lparr>num = 100, den = 1000\<rparr> 0 (leaf ''frame1'') =
     Inr (''frame1'', \<lparr>num = 100, den = 1000\<rparr>)"
proof -
  let ?fs = "project ''/anim'' [(''a.png'', True)] no_delays_doc"
  have a: "read_json ?fs ''/anim/spec.json'' = Some no_delays_doc"
    "set_current_path ?fs (parent_path ''/anim/spec.json'') = Inr (?fs\<lparr>cwd := ''/anim''\<rparr>)"
    "get_child_optional no_delays_doc ''delays'' = None"
    by (simp_all add: project_def no_delays_doc_def tree_eval path_eval)
  have b: "get_child_optional bare_doc ''delays'' = Some (array [])" "children (array []) = []"
    "get_child_optional bare_doc ''frames'' = Some (array [leaf ''frame1''])"
    "read_default_delay example_platform bare_doc = Inr \<lparr>num = 100, den = 1000\<rparr>"
    "children (leaf ''frame1'') = []"
    by (simp_all add: bare_doc_def tree_eval read_default_delay_def example_platform_sel)
  have c: "frames_loop example_platform (working_dir ''/anim'' []) [] \<lparr>num = 100, den = 1000\<rparr>
      (children (array [leaf ''frame1''])) (0, []) =
      Inr (1, [\<lparr>filePath = ''/anim/frame1.png'', delay = \<lparr>num = 100, den = 1000\<rparr>\<rparr>])"
    by (simp add: tree_eval frame_body_def frame_file_delay_def getFiles_def working_dir_def path_eval)
  have d: "read_scalars example_platform bare_doc AbstractSpecReader =
      \<lparr>name = [], loops = 0, skipFirst = False, frameInfos = []\<rparr>"
    by (simp add: read_scalars_def bare_doc_def tree_eval AbstractSpecReader_def)
  note t1 = missing_delays_is_fatal [where fs = ?fs and specPath = "''/anim/spec.json''"
      and root = no_delays_doc and ?fs1.0 = "?fs\<lparr>cwd := ''/anim''\<rparr>" and P = example_platform]
  note t2 = missing_delays_is_fatal [where fs = "working_dir ''/anim'' []" and root = bare_doc
      and dnode = "array []" and fnode = "array [leaf ''frame1'']" and P = example_platform
      and dd = "\<lparr>num = 100, den = 1000\<rparr>" and frame = "leaf ''frame1''" and i = 0]
  from t1 a have r1: "JsonSpecReader example_platform ?fs ''/anim/spec.json'' =
     (Inl (ptree_bad_path ''delays''), ?fs\<lparr>cwd := ''/anim''\<rparr>)"
    by blast
  from t2 b c d have r2: "read_document example_platform (working_dir ''/anim'' []) bare_doc =
     Inr \<lparr>name = [], loops = 0, skipFirst = False,
          frameInfos = [\<lparr>filePath = ''/anim/frame1.png'', delay = \<lparr>num = 100, den = 1000\<rparr>\<rparr>]\<rparr>"
    by simp
  from t2 b have r3: "frame_file_delay example_platform [] \<lparr>num = 100, den = 1000\<rparr> 0 (leaf ''frame1'') =
     Inr (''frame1'', \<lparr>num = 100, den = 1000\<rparr>)"
    by (simp add: leaf_def)
  from a b r1 r2 r3 show ?thesis by (intro conjI)
qed

text \<open>
  Claim C7 as stated fails: the document has \<^verbatim>\<open>frames\<close> and no \<^verbatim>\<open>delays\<close>, and the
  load ends with an exception instead of a frame list.
\<close>

theorem load_fails_without_delays:
  "get_child_optional no_delays_doc ''delays'' = None \<and>
   read_json (project ''/anim'' [(''a.png'', True)] no_delays_doc) ''/anim/spec.json'' =
     Some no_delays_doc \<and>
   fst (JsonSpecReader example_platform (project ''/anim'' [(''a.png'', True)] no_delays_doc)
          ''/anim/spec.json'') = Inl (ptree_bad_path ''delays'')"
  by (simp add: reader_eval project_def no_delays_doc_def tree_eval delay_eval path_eval)

subsection \<open>The wildcard pattern\<close>

text \<open>
  For a path without an opening brace the two replacements build a pattern that the
  model parses into one item per character of the path, and the pattern matches as the
  specification asks: a star matches one or more characters and every other character
  matches itself.
\<close>

lemma escape_not_word: "c \<in> set escape \<Longrightarrow> c \<notin> set word_chars"
  by (auto simp: escape_def word_chars_def)

lemma star_not_escape: "CHR ''*'' \<notin> set escape"
  by (simp add: escape_def)

lemma plain_not_special:
  "c \<notin> set escape \<Longrightarrow>
   c \<noteq> CHR 0x5C \<and> c \<noteq> CHR ''.'' \<and> c \<noteq> CHR ''+'' \<and> (c \<noteq> CHR ''*'' \<longrightarrow> c \<notin> set ''[()*?|^$'')"
  by (simp add: escape_def)

lemma replace_escape_Cons:
  "replace_escape (c # p) = (if c \<in> set escape then [CHR 0x5C, c] else [c]) @ replace_escape p"
  by (simp add: replace_escape_def)

lemma replace_wildcard_append:
  "replace_wildcard (a @ b) = replace_wildcard a @ replace_wildcard b"
  by (simp add: replace_wildcard_def)

lemma replace_wildcard_escaped:
  "c \<in> set escape \<Longrightarrow> replace_wildcard [CHR 0x5C, c] = [CHR 0x5C, c]"
  using star_not_escape by (auto simp: replace_wildcard_def)

lemma replace_wildcard_single:
  "replace_wildcard [c] = (if c = CHR ''*'' then ''.+'' else [c])"
  by (simp add: replace_wildcard_def)

lemma conversion_Cons:
  "replace_wildcard (replace_escape (c # p)) =
     (if c \<in> set escape then [CHR 0x5C, c] else if c = CHR ''*'' then ''.+'' else [c]) @
     replace_wildcard (replace_escape p)"
  by (simp add: replace_escape_Cons replace_wildcard_append replace_wildcard_escaped
      replace_wildcard_single)

lemma item_of_simps:
  "item_of (CHR ''*'') = Item AnyChar 1 None"
  "c \<noteq> CHR ''*'' \<Longrightarrow> item_of c = Item (Lit c) 1 (Some 1)"
  by (simp_all add: item_of_def)

lemma parse_converted:
  "CHR ''{'' \<notin> set p \<Longrightarrow>
   parse_items (replace_wildcard (replace_escape p)) 0 False q acc =
     Some (rev acc @ map item_of p)"
proof (induction p arbitrary: q acc)
  case Nil
  show ?case by (simp add: replace_wildcard_def replace_escape_def)
next
  case (Cons c p)
  then have IH: "\<And>q acc. parse_items (replace_wildcard (replace_escape p)) 0 False q acc =
     Some (rev acc @ map item_of p)" and c: "c \<noteq> CHR ''{''"
    by auto
  consider (esc) "c \<in> set escape" | (star) "c = CHR ''*''"
    | (plain) "c \<notin> set escape" "c \<noteq> CHR ''*''"
    by blast
  then show ?case
  proof cases
    case esc
    then have ns: "c \<noteq> CHR ''*''" using star_not_escape by auto
    from esc have sp: "c \<notin> set word_chars" by (rule escape_not_word)
    have "parse_items (replace_wildcard (replace_escape (c # p))) 0 False q acc =
          parse_items (CHR 0x5C # c # replace_wildcard (replace_escape p)) 0 False q acc"
      using esc by (simp add: conversion_Cons)
    also have "\<dots> = parse_items (replace_wildcard (replace_escape p)) 0 False False
          (Item (Lit c) 1 (Some 1) # acc)"
      using sp by simp
    also have "\<dots> = Some (rev acc @ map item_of (c # p))"
      using ns by (simp add: IH item_of_simps)
    finally show ?thesis .
  next
    case star
    have "parse_items (replace_wildcard (replace_escape (c # p))) 0 False q acc =
          parse_items (CHR ''.'' # CHR ''+'' # replace_wildcard (replace_escape p)) 0 False q acc"
      using star star_not_escape by (simp add: conversion_Cons)
    also have "\<dots> = parse_items (replace_wildcard (replace_escape p)) 0 False True
          (Item AnyChar 1 None # acc)"
      by simp
    also have "\<dots> = Some (rev acc @ map item_of (c # p))"
      using star by (simp add: IH item_of_simps)
    finally show ?thesis .
  next
    case plain
    from plain_not_special [OF plain(1)] plain(2) have
      n: "c \<noteq> CHR 0x5C" "c \<noteq> CHR ''.''" "c \<noteq> CHR ''+''" "c \<notin> set ''[()*?|^$''"
      by auto
    have "parse_items (replace_wildcard (replace_escape (c # p))) 0 False q acc =
          parse_items (c # replace_wildcard (replace_escape p)) 0 False q acc"
      using plain by (simp add: conversion_Cons)
    also have "\<dots> = parse_items (replace_wildcard (replace_escape p)) 0 False False
          (Item (Lit c) 1 (Some 1) # acc)"
      using n c by (simp del: set_simps)
    also have "\<dots> = Some (rev acc @ map item_of (c # p))"
      using plain(2) by (simp add: IH item_of_simps)
    finally show ?thesis .
  qed
qed

lemma match_literal:
  "match_repeat (Lit c) (Suc 0) (Some (Suc 0)) cont s =
     (case s of [] \<Rightarrow> False | x # xs \<Rightarrow> x = c \<and> cont xs)"
proof (cases s)
  case Nil
  then show ?thesis by simp
next
  case (Cons x xs)
  then show ?thesis by (cases xs) auto
qed

lemma match_any:
  "match_repeat AnyChar lo None cont s = (\<exists>k. lo \<le> k \<and> k \<le> length s \<and> cont (drop k s))"
proof (induction s arbitrary: lo)
  case Nil
  show ?case by auto
next
  case (Cons x xs)
  have "(\<exists>k. lo \<le> k \<and> k \<le> length (x # xs) \<and> cont (drop k (x # xs))) \<longleftrightarrow>
        (lo = 0 \<and> cont (x # xs)) \<or> (\<exists>k. lo - 1 \<le> k \<and> k \<le> length xs \<and> cont (drop k xs))"
    (is "?L \<longleftrightarrow> ?A \<or> ?B")
  proof
    assume ?L
    then obtain k where k: "lo \<le> k" "k \<le> length (x # xs)" "cont (drop k (x # xs))" by blast
    show "?A \<or> ?B"
    proof (cases k)
      case 0
      with k show ?thesis by simp
    next
      case (Suc j)
      with k have "lo - 1 \<le> j \<and> j \<le> length xs \<and> cont (drop j xs)" by auto
      then show ?thesis by blast
    qed
  next
    assume "?A \<or> ?B"
    then show ?L
    proof
      assume ?A
      then have "lo \<le> 0 \<and> 0 \<le> length (x # xs) \<and> cont (drop 0 (x # xs))" by simp
      then show ?L by blast
    next
      assume ?B
      then obtain k where "lo - 1 \<le> k" "k \<le> length xs" "cont (drop k xs)" by blast
      then have "lo \<le> Suc k \<and> Suc k \<le> length (x # xs) \<and> cont (drop (Suc k) (x # xs))"
        by auto
      then show ?L by blast
    qed
  qed
  with Cons.IH [of "lo - 1"] show ?case by auto
qed

lemma match_items_glob: "match_items (map item_of p) s = glob_match p s"
proof (induction p arbitrary: s)
  case Nil
  show ?case by simp
next
  case (Cons c p)
  show ?case
  proof (cases "c = CHR ''*''")
    case True
    have "list_ex (\<lambda>k. glob_match p (drop k s)) [1..<Suc (length s)] \<longleftrightarrow>
          (\<exists>k. 1 \<le> k \<and> k \<le> length s \<and> glob_match p (drop k s))"
      by (auto simp: list_ex_iff)
    moreover have "match_items (map item_of (c # p)) s =
          match_repeat AnyChar 1 None (match_items (map item_of p)) s"
      using True by (simp add: item_of_simps)
    moreover have "match_items (map item_of p) = glob_match p"
      using Cons.IH by (intro ext)
    ultimately show ?thesis
      using True by (simp add: match_any del: match_repeat.simps upt_Suc)
  next
    case False
    have "match_items (map item_of (c # p)) s =
          match_repeat (Lit c) 1 (Some 1) (match_items (map item_of p)) s"
      using False by (simp add: item_of_simps)
    moreover have "match_items (map item_of p) = glob_match p"
      using Cons.IH by (intro ext)
    ultimately show ?thesis
      using False by (simp add: match_literal del: match_repeat.simps)
  qed
qed

lemma boost_regex_converted:
  "CHR ''{'' \<notin> set p \<Longrightarrow>
   boost_regex (replace_wildcard (replace_escape p)) = Some (glob_match p)"
proof -
  assume "CHR ''{'' \<notin> set p"
  then have "parse_items (replace_wildcard (replace_escape p)) 0 False False [] =
     Some (map item_of p)"
    by (simp add: parse_converted)
  moreover have "match_items (map item_of p) = glob_match p"
    by (intro ext) (rule match_items_glob)
  ultimately show ?thesis by (simp add: boost_regex_def)
qed

text \<open>
  Claim C9 fails on the code. The braces are special characters of the regular
  expression syntax, but the class \<^verbatim>\<open>escape\<close> does not list them, so they reach the
  pattern as they are. The file name \<^verbatim>\<open>a{2}*.png\<close> becomes the pattern "two letters
  a, then one or more characters, then \<^verbatim>\<open>.png\<close>": it finds \<^verbatim>\<open>aax.png\<close> and does not
  find \<^verbatim>\<open>a{2}x.png\<close>, the file whose name has the braces, while the matching of the
  specification accepts the second and rejects the first.
\<close>

theorem braces_not_escaped:
  "CHR ''{'' \<in> set regex_special \<and> CHR ''{'' \<notin> set escape \<and>
   replace_wildcard (replace_escape ''/anim/a{2}*.png'') = ''/anim/a{2}.+'' @ [CHR 0x5C] @ ''.png'' \<and>
   getFiles example_platform (working_dir ''/anim'' brace_entries) ''a{2}*.png'' =
     Inr [''/anim/aax.png''] \<and>
   glob_match ''/anim/a{2}*.png'' ''/anim/a{2}x.png'' \<and>
   \<not> glob_match ''/anim/a{2}*.png'' ''/anim/aax.png''"
proof -
  have "getFiles example_platform (working_dir ''/anim'' brace_entries) ''a{2}*.png'' =
     Inr [''/anim/aax.png'']"
    by (simp add: getFiles_def working_dir_def brace_entries_def example_platform_sel
        path_eval regex_eval)
  moreover have "glob_match ''/anim/a{2}*.png'' ''/anim/a{2}x.png''"
    "\<not> glob_match ''/anim/a{2}*.png'' ''/anim/aax.png''"
    by simp_all
  ultimately show ?thesis
    by (simp add: regex_special_def escape_def replace_escape_def replace_wildcard_def)
qed

end
